theory Spec2Isabelle
  imports Main "HOL-Library.Word"
begin

section \<open>The batch prepender \<^verbatim>\<open>_addnl.py\<close>\<close>

text \<open>
  The program walks the immediate entries of one directory and, for every regular file
  whose lowercased name ends in \<^verbatim>\<open>.txt\<close> or \<^verbatim>\<open>.md\<close>, rewrites the file as
  \<^verbatim>\<open>f"{line1}{nl}{line2}{nl}{original_content}"\<close>.

  Representation of the Python values:
  \<^item> file names and the \<^verbatim>\<open>newline_type\<close> argument are \<open>string\<close>s whose characters are
    the code points 0 to 255;
  \<^item> the bytes of a file are \<open>8 word\<close>s;
  \<^item> the text read from and written to a file is a list of Unicode code points
    (\<open>nat\<close>), as a Python \<^verbatim>\<open>str\<close> is;
  \<^item> an exception is a value of \<open>exn\<close>; console output is a list of \<open>event\<close>s;
  \<^item> the names of the directory resolve to files of a store, so that two names of one
    file (hard links, a symbolic link and its target) share its content.
\<close>

subsection \<open>Text and bytes\<close>

type_synonym byte = "8 word"
type_synonym str = "nat list"

text \<open>
  What a read or a write can raise: the subclasses of \<^verbatim>\<open>Exception\<close>. An \<^verbatim>\<open>OSError\<close> has its
  message; any other class has its name and its message.
\<close>

datatype exn =
    UnicodeDecodeError
  | UnicodeEncodeError
  | OSError string
  | OtherException string string

text \<open>
  The \<^verbatim>\<open>utf-8\<close> codec with \<^verbatim>\<open>errors='strict'\<close>, which \<^verbatim>\<open>open(..., encoding='utf-8')\<close>
  uses: only well-formed sequences decode (no overlong forms, no surrogates, nothing
  above U+10FFFF), and a byte-order mark is the ordinary character U+FEFF.
\<close>

definition is_cont :: "byte \<Rightarrow> bool" where
  "is_cont b \<longleftrightarrow> 0x80 \<le> b \<and> b \<le> 0xBF"

definition cont_bits :: "byte \<Rightarrow> nat" where
  "cont_bits b = unat b - 0x80"

text \<open>The range of the second byte of a sequence, which depends on the lead byte.\<close>

definition second_lo :: "byte \<Rightarrow> byte" where
  "second_lo b0 = (if b0 = 0xE0 then 0xA0 else if b0 = 0xF0 then 0x90 else 0x80)"

definition second_hi :: "byte \<Rightarrow> byte" where
  "second_hi b0 = (if b0 = 0xED then 0x9F else if b0 = 0xF4 then 0x8F else 0xBF)"

fun utf8_decode :: "byte list \<Rightarrow> str option" where
  "utf8_decode [] = Some []"
| "utf8_decode (b0 # bs) =
     (if b0 \<le> 0x7F then map_option ((#) (unat b0)) (utf8_decode bs)
      else if 0xC2 \<le> b0 \<and> b0 \<le> 0xDF then
        (case bs of
           b1 # r \<Rightarrow>
             if is_cont b1
             then map_option ((#) ((unat b0 - 0xC0) * 64 + cont_bits b1)) (utf8_decode r)
             else None
         | _ \<Rightarrow> None)
      else if 0xE0 \<le> b0 \<and> b0 \<le> 0xEF then
        (case bs of
           b1 # b2 # r \<Rightarrow>
             if second_lo b0 \<le> b1 \<and> b1 \<le> second_hi b0 \<and> is_cont b2
             then map_option
                    ((#) ((unat b0 - 0xE0) * 4096 + cont_bits b1 * 64 + cont_bits b2))
                    (utf8_decode r)
             else None
         | _ \<Rightarrow> None)
      else if 0xF0 \<le> b0 \<and> b0 \<le> 0xF4 then
        (case bs of
           b1 # b2 # b3 # r \<Rightarrow>
             if second_lo b0 \<le> b1 \<and> b1 \<le> second_hi b0 \<and> is_cont b2 \<and> is_cont b3
             then map_option
                    ((#) ((unat b0 - 0xF0) * 262144 + cont_bits b1 * 4096
                          + cont_bits b2 * 64 + cont_bits b3))
                    (utf8_decode r)
             else None
         | _ \<Rightarrow> None)
      else None)"

definition encodable :: "nat \<Rightarrow> bool" where
  "encodable c \<longleftrightarrow> c < 0xD800 \<or> (0xE000 \<le> c \<and> c \<le> 0x10FFFF)"

definition encode_cp :: "nat \<Rightarrow> byte list" where
  "encode_cp c =
     (if c < 0x80 then [of_nat c]
      else if c < 0x800 then [of_nat (0xC0 + c div 64), of_nat (0x80 + c mod 64)]
      else if c < 0x10000 then
        [of_nat (0xE0 + c div 4096), of_nat (0x80 + c div 64 mod 64), of_nat (0x80 + c mod 64)]
      else
        [of_nat (0xF0 + c div 262144), of_nat (0x80 + c div 4096 mod 64),
         of_nat (0x80 + c div 64 mod 64), of_nat (0x80 + c mod 64)])"

definition utf8_encode :: "str \<Rightarrow> byte list option" where
  "utf8_encode t = (if list_all encodable t then Some (concat (map encode_cp t)) else None)"

text \<open>
  Reading with \<^verbatim>\<open>open(filepath, 'r', encoding='utf-8')\<close> leaves \<^verbatim>\<open>newline=None\<close>, the
  universal-newlines mode: in the text that \<^verbatim>\<open>f.read()\<close> returns, every \<^verbatim>\<open>\r\n\<close> and
  every other \<^verbatim>\<open>\r\<close> has become \<^verbatim>\<open>\n\<close>.
\<close>

fun universal_newlines :: "str \<Rightarrow> str" where
  "universal_newlines [] = []"
| "universal_newlines (c # cs) =
     (if c = 0x0D then
        (case cs of
           d # ds \<Rightarrow>
             if d = 0x0A then 0x0A # universal_newlines ds else 0x0A # universal_newlines cs
         | [] \<Rightarrow> [0x0A])
      else c # universal_newlines cs)"

text \<open>A string literal as bytes (a file's content) and as code points (a text).\<close>

definition bytes_of :: "string \<Rightarrow> byte list" where
  "bytes_of s = map of_char s"

definition str_of :: "string \<Rightarrow> str" where
  "str_of s = map of_char s"

subsection \<open>File names\<close>

text \<open>
  \<^verbatim>\<open>str.lower()\<close> on the code points 0 to 255: the ASCII capitals and the Latin-1
  capitals U+00C0 to U+00DE (U+00D7, the multiplication sign, is not a letter) move up
  by 32; every other character stays.
\<close>

definition lower_char :: "char \<Rightarrow> char" where
  "lower_char c =
     (let n = (of_char c :: nat)
      in if (0x41 \<le> n \<and> n \<le> 0x5A) \<or> (0xC0 \<le> n \<and> n \<le> 0xDE \<and> n \<noteq> 0xD7)
         then char_of (n + 32) else c)"

definition lower :: "string \<Rightarrow> string" where
  "lower s = map lower_char s"

definition endswith :: "string \<Rightarrow> string \<Rightarrow> bool" where
  "endswith s suffix \<longleftrightarrow> drop (length s - length suffix) s = suffix"

subsection \<open>The directory and its files\<close>

text \<open>
  A regular file has its bytes and says what goes wrong with it: the exception that
  \<^verbatim>\<open>open(filepath, 'r')\<close> raises, the one that \<^verbatim>\<open>f.read()\<close> or the closing after it
  raises (other than a decoding failure, which depends on the bytes), the one that
  \<^verbatim>\<open>open(filepath, 'w')\<close> raises before it empties the file, and the one that \<^verbatim>\<open>f.write\<close>
  or the closing of the file raises after the file was emptied, with the number of bytes
  that had reached the file. An exception is of any class: the handler is
  \<^verbatim>\<open>except Exception\<close>.
\<close>

record regular_file =
  content :: "byte list"
  open_read_error :: "exn option"
  read_error :: "exn option"
  open_write_error :: "exn option"
  write_error :: "(exn \<times> nat) option"

definition plain_file :: "byte list \<Rightarrow> regular_file" where
  "plain_file bs =
     \<lparr>content = bs, open_read_error = None, read_error = None,
      open_write_error = None, write_error = None\<rparr>"

text \<open>
  An entry of the target directory is a regular file (what \<^verbatim>\<open>os.path.isfile\<close> accepts,
  also through a symbolic link), a subdirectory with its own entries, or anything else.
  A name of a regular file gives the identity of the file; the files themselves are in a
  store. Two names with one identity are one file.
\<close>

type_synonym file_id = nat

datatype node = File file_id | Dir "(string \<times> node) list" | Special

type_synonym directory = "string \<rightharpoonup> node"

type_synonym store = "file_id \<rightharpoonup> regular_file"

definition isfile :: "directory \<Rightarrow> store \<Rightarrow> string \<Rightarrow> bool" where
  "isfile d fs filename =
     (case d filename of
        Some (File i) \<Rightarrow> (case fs i of Some f \<Rightarrow> True | None \<Rightarrow> False)
      | _ \<Rightarrow> False)"

text \<open>
  \<^verbatim>\<open>with open(filepath, 'r', encoding='utf-8') as f: original_content = f.read()\<close>
  The loop reads and writes only a name that \<^verbatim>\<open>os.path.isfile\<close> has just accepted; on any
  other entry both operations fail with an \<^verbatim>\<open>OSError\<close>.
\<close>

definition read_text :: "directory \<Rightarrow> store \<Rightarrow> string \<Rightarrow> exn + str" where
  "read_text d fs filename =
     (case d filename of
        Some (File i) \<Rightarrow>
          (case fs i of
             Some f \<Rightarrow>
               (case open_read_error f of
                  Some e \<Rightarrow> Inl e
                | None \<Rightarrow>
                    (case read_error f of
                       Some e \<Rightarrow> Inl e
                     | None \<Rightarrow>
                         (case utf8_decode (content f) of
                            None \<Rightarrow> Inl UnicodeDecodeError
                          | Some t \<Rightarrow> Inr (universal_newlines t))))
           | None \<Rightarrow> Inl (OSError ''not a regular file''))
      | _ \<Rightarrow> Inl (OSError ''not a regular file''))"

text \<open>
  \<^verbatim>\<open>with open(filepath, 'w', encoding='utf-8', newline='') as f: f.write(new_content)\<close>
  With \<^verbatim>\<open>newline=''\<close> nothing is translated on the way out. Opening for writing
  empties the file before \<^verbatim>\<open>f.write\<close> encodes the text, so a text that cannot be
  encoded leaves the file empty, and a write that fails leaves the bytes that had reached
  the file. The write goes to the file, whichever name opened it.
\<close>

definition write_text :: "directory \<Rightarrow> store \<Rightarrow> string \<Rightarrow> str \<Rightarrow> store \<times> exn option" where
  "write_text d fs filename new_content =
     (case d filename of
        Some (File i) \<Rightarrow>
          (case fs i of
             Some f \<Rightarrow>
               (case open_write_error f of
                  Some e \<Rightarrow> (fs, Some e)
                | None \<Rightarrow>
                    (case utf8_encode new_content of
                       None \<Rightarrow> (fs(i \<mapsto> f\<lparr>content := []\<rparr>), Some UnicodeEncodeError)
                     | Some bs \<Rightarrow>
                         (case write_error f of
                            Some (e, n) \<Rightarrow> (fs(i \<mapsto> f\<lparr>content := take n bs\<rparr>), Some e)
                          | None \<Rightarrow> (fs(i \<mapsto> f\<lparr>content := bs\<rparr>), None))))
           | None \<Rightarrow> (fs, Some (OSError ''not a regular file'')))
      | _ \<Rightarrow> (fs, Some (OSError ''not a regular file'')))"

subsection \<open>\<^verbatim>\<open>insert_lines_to_files\<close>\<close>

text \<open>
  \<^verbatim>\<open>os.linesep\<close> is fixed by the host platform: \<^verbatim>\<open>'\n'\<close> on POSIX, \<^verbatim>\<open>'\r\n'\<close> on
  Windows.
\<close>

datatype platform = Posix | Windows

definition os_linesep :: "platform \<Rightarrow> str" where
  "os_linesep p = (case p of Posix \<Rightarrow> [0x0A] | Windows \<Rightarrow> [0x0D, 0x0A])"

text \<open>
  What the function prints: one notice for each file it tries, two lines at the end. A
  notice carries the file name; the label of the terminator is \<^verbatim>\<open>LF\<close> or \<^verbatim>\<open>CRLF\<close> (the
  last line prints it with the escape sequence in parentheses).
\<close>

datatype event =
    Processed string string
  | SkippedNonText string
  | Failed string exn
  | Total nat
  | UsedNewline string

record run_state =
  dir :: directory
  files :: store
  processed_files :: nat
  console :: "event list"

definition line1 :: str where
  "line1 = []"

definition line2 :: str where
  "line2 = []"

definition text_extensions :: "string list" where
  "text_extensions = [''.txt'', ''.md'']"

text \<open>Lines 11 to 16: the \<^verbatim>\<open>if\<close>/\<^verbatim>\<open>elif\<close>/\<^verbatim>\<open>else\<close> that sets \<^verbatim>\<open>nl\<close>.\<close>

definition resolve_nl :: "platform \<Rightarrow> string \<Rightarrow> str" where
  "resolve_nl p newline_type =
     (if newline_type = ''lf'' then [0x0A]
      else if newline_type = ''crlf'' then [0x0D, 0x0A]
      else os_linesep p)"

definition nl_label :: "str \<Rightarrow> string" where
  "nl_label nl = (if nl = [0x0A] then ''LF'' else ''CRLF'')"

text \<open>Lines 32 to 44: the \<^verbatim>\<open>try\<close> statement with its two handlers.\<close>

definition try_block :: "str \<Rightarrow> string \<Rightarrow> run_state \<Rightarrow> run_state" where
  "try_block nl filename s =
     (case read_text (dir s) (files s) filename of
        Inl UnicodeDecodeError \<Rightarrow> s\<lparr>console := console s @ [SkippedNonText filename]\<rparr>
      | Inl e \<Rightarrow> s\<lparr>console := console s @ [Failed filename e]\<rparr>
      | Inr original_content \<Rightarrow>
          (let new_content = line1 @ nl @ line2 @ nl @ original_content
           in case write_text (dir s) (files s) filename new_content of
                (fs, Some UnicodeDecodeError) \<Rightarrow>
                  s\<lparr>files := fs, console := console s @ [SkippedNonText filename]\<rparr>
              | (fs, Some e) \<Rightarrow> s\<lparr>files := fs, console := console s @ [Failed filename e]\<rparr>
              | (fs, None) \<Rightarrow>
                  s\<lparr>files := fs,
                    console := console s @ [Processed filename (nl_label nl)],
                    processed_files := processed_files s + 1\<rparr>))"

text \<open>Lines 25 to 44: the body of the \<^verbatim>\<open>for\<close> loop, with its two \<^verbatim>\<open>continue\<close>s.\<close>

definition loop_body :: "str \<Rightarrow> string \<Rightarrow> run_state \<Rightarrow> run_state" where
  "loop_body nl filename s =
     (if \<not> isfile (dir s) (files s) filename then s
      else if \<not> list_ex (\<lambda>ext. endswith (lower filename) ext) text_extensions then s
      else try_block nl filename s)"

fun for_loop :: "str \<Rightarrow> string list \<Rightarrow> run_state \<Rightarrow> run_state" where
  "for_loop nl [] s = s"
| "for_loop nl (filename # rest) s = for_loop nl rest (loop_body nl filename s)"

text \<open>
  The whole function. \<open>listing\<close> is what \<^verbatim>\<open>os.listdir(directory)\<close> returned, in its
  order; \<open>d\<close> holds the entries of the directory and \<open>fs\<close> the files, and each name is
  looked up when its turn comes. Nothing else changes the directory or the files during
  the run, and \<^verbatim>\<open>print\<close> does not fail.
\<close>

definition insert_lines_to_files ::
  "platform \<Rightarrow> string list \<Rightarrow> directory \<Rightarrow> store \<Rightarrow> string \<Rightarrow> run_state" where
  "insert_lines_to_files p listing d fs newline_type =
     (let nl = resolve_nl p newline_type;
          s = for_loop nl listing \<lparr>dir = d, files = fs, processed_files = 0, console = []\<rparr>
      in s\<lparr>console := console s @ [Total (processed_files s), UsedNewline (nl_label nl)]\<rparr>)"

subsection \<open>\<^verbatim>\<open>parse_arguments\<close>\<close>

text \<open>
  Of the argument parser, the \<^verbatim>\<open>--newline\<close> option: absent, it is \<^verbatim>\<open>'system'\<close>; a value
  outside \<^verbatim>\<open>choices\<close> ends the process with status 2, as \<^verbatim>\<open>argparse\<close> does.
\<close>

datatype exit = SystemExit nat

definition newline_choices :: "string list" where
  "newline_choices = [''lf'', ''crlf'', ''system'']"

definition parse_newline :: "string option \<Rightarrow> exit + string" where
  "parse_newline given =
     (case given of
        None \<Rightarrow> Inr ''system''
      | Some v \<Rightarrow> if v \<in> set newline_choices then Inr v else Inl (SystemExit 2))"

section \<open>Properties of the codec\<close>

subsection \<open>Arithmetic of the bit fields\<close>

lemma digit:
  fixes q r m :: nat
  assumes "r < m"
  shows "(q * m + r) div m = q" "(q * m + r) mod m = r"
  using assms by simp_all

lemma split3:
  fixes x y z :: nat
  assumes "y < 64" "z < 64"
  shows "(x * 4096 + y * 64 + z) div 4096 = x"
    "(x * 4096 + y * 64 + z) div 64 mod 64 = y"
    "(x * 4096 + y * 64 + z) mod 64 = z"
proof -
  have e: "x * 4096 + y * 64 + z = (x * 64 + y) * 64 + z" by simp
  have d: "(x * 4096 + y * 64 + z) div 64 = x * 64 + y"
    by (subst e) (rule digit(1)[OF assms(2)])
  show "(x * 4096 + y * 64 + z) div 64 mod 64 = y"
    by (subst d) (rule digit(2)[OF assms(1)])
  show "(x * 4096 + y * 64 + z) mod 64 = z"
    by (subst e) (rule digit(2)[OF assms(2)])
  have "y * 64 + z < 4096" using assms by simp
  from digit(1)[OF this, of x] show "(x * 4096 + y * 64 + z) div 4096 = x"
    by (simp add: add.assoc)
qed

lemma split4:
  fixes x y z w :: nat
  assumes "y < 64" "z < 64" "w < 64"
  shows "(x * 262144 + y * 4096 + z * 64 + w) div 262144 = x"
    "(x * 262144 + y * 4096 + z * 64 + w) div 4096 mod 64 = y"
    "(x * 262144 + y * 4096 + z * 64 + w) div 64 mod 64 = z"
    "(x * 262144 + y * 4096 + z * 64 + w) mod 64 = w"
proof -
  have e: "x * 262144 + y * 4096 + z * 64 + w = (x * 64 + y) * 4096 + z * 64 + w" by simp
  have d: "(x * 262144 + y * 4096 + z * 64 + w) div 4096 = x * 64 + y"
    by (subst e) (rule split3(1)[OF assms(2,3)])
  show "(x * 262144 + y * 4096 + z * 64 + w) div 4096 mod 64 = y"
    by (subst d) (rule digit(2)[OF assms(1)])
  show "(x * 262144 + y * 4096 + z * 64 + w) div 64 mod 64 = z"
    by (subst e) (rule split3(2)[OF assms(2,3)])
  show "(x * 262144 + y * 4096 + z * 64 + w) mod 64 = w"
    by (subst e) (rule split3(3)[OF assms(2,3)])
  have "y * 4096 + z * 64 + w < 262144" using assms by simp
  from digit(1)[OF this, of x] show "(x * 262144 + y * 4096 + z * 64 + w) div 262144 = x"
    by (simp add: add.assoc)
qed

lemma cont_offset: "is_cont b \<Longrightarrow> \<exists>y. unat b = 128 + y \<and> y < 64 \<and> cont_bits b = y"
proof -
  assume "is_cont b"
  then have r: "128 \<le> unat b" "unat b \<le> 191" by (simp_all add: is_cont_def word_le_nat_alt)
  then obtain y where "unat b = 128 + y" using le_iff_add by blast
  with r show ?thesis by (simp add: cont_bits_def)
qed

lemma second_range:
  assumes "second_lo b0 \<le> b1" "b1 \<le> second_hi b0"
  shows "128 \<le> unat b1 \<and> unat b1 \<le> 191 \<and> (unat b0 = 224 \<longrightarrow> 160 \<le> unat b1)
      \<and> (unat b0 = 237 \<longrightarrow> unat b1 \<le> 159) \<and> (unat b0 = 240 \<longrightarrow> 144 \<le> unat b1)
      \<and> (unat b0 = 244 \<longrightarrow> unat b1 \<le> 143)"
  using assms
  by (auto simp: second_lo_def second_hi_def word_le_nat_alt word_unat_eq_iff split: if_splits)

lemma second_offset:
  assumes "second_lo b0 \<le> b1" "b1 \<le> second_hi b0"
  shows "\<exists>y. unat b1 = 128 + y \<and> y < 64 \<and> cont_bits b1 = y
      \<and> (unat b0 = 224 \<longrightarrow> 32 \<le> y) \<and> (unat b0 = 237 \<longrightarrow> y \<le> 31)
      \<and> (unat b0 = 240 \<longrightarrow> 16 \<le> y) \<and> (unat b0 = 244 \<longrightarrow> y \<le> 15)"
proof -
  from second_range[OF assms] obtain y where "unat b1 = 128 + y" using le_iff_add by blast
  with second_range[OF assms] show ?thesis by (simp add: cont_bits_def)
qed

subsection \<open>One sequence: the code point is a scalar value and encodes to the same bytes\<close>

lemma one_byte:
  assumes "b0 \<le> (0x7F::byte)"
  shows "encodable (unat b0)" "encode_cp (unat b0) = [b0]"
proof -
  have "unat b0 < 128" using assms by (simp add: word_le_nat_alt)
  then show "encodable (unat b0)" "encode_cp (unat b0) = [b0]"
    by (simp_all add: encodable_def encode_cp_def)
qed

lemma two_bytes:
  assumes "0xC2 \<le> b0" "b0 \<le> (0xDF::byte)" "is_cont b1"
  shows "encodable ((unat b0 - 0xC0) * 64 + cont_bits b1)"
    "encode_cp ((unat b0 - 0xC0) * 64 + cont_bits b1) = [b0, b1]"
proof -
  have r: "194 \<le> unat b0" "unat b0 \<le> 223" using assms(1,2) by (simp_all add: word_le_nat_alt)
  then obtain x where x: "unat b0 = 192 + x" using le_iff_add[of 192 "unat b0"] by auto
  from cont_offset[OF assms(3)] obtain y where y: "unat b1 = 128 + y" "y < 64" "cont_bits b1 = y"
    by blast
  let ?c = "x * 64 + y"
  have c: "(unat b0 - 0xC0) * 64 + cont_bits b1 = ?c" using x y by simp
  have "2 \<le> x" "x \<le> 31" using r x by simp_all
  then have b: "\<not> ?c < 128" "?c < 2048" using y(2) by simp_all
  then show "encodable ((unat b0 - 0xC0) * 64 + cont_bits b1)"
    unfolding c by (simp add: encodable_def)
  have "encode_cp ?c = [of_nat (192 + ?c div 64), of_nat (128 + ?c mod 64)]"
    using b by (simp add: encode_cp_def)
  also have "\<dots> = [of_nat (unat b0), of_nat (unat b1)]"
    by (simp only: digit[OF y(2)] x y(1))
  finally show "encode_cp ((unat b0 - 0xC0) * 64 + cont_bits b1) = [b0, b1]"
    unfolding c by simp
qed

lemma three_bytes:
  assumes "0xE0 \<le> b0" "b0 \<le> (0xEF::byte)" "second_lo b0 \<le> b1" "b1 \<le> second_hi b0" "is_cont b2"
  shows "encodable ((unat b0 - 0xE0) * 4096 + cont_bits b1 * 64 + cont_bits b2)"
    "encode_cp ((unat b0 - 0xE0) * 4096 + cont_bits b1 * 64 + cont_bits b2) = [b0, b1, b2]"
proof -
  have r: "224 \<le> unat b0" "unat b0 \<le> 239" using assms(1,2) by (simp_all add: word_le_nat_alt)
  then obtain x where x: "unat b0 = 224 + x" using le_iff_add[of 224 "unat b0"] by auto
  from second_offset[OF assms(3,4)] obtain y where y: "unat b1 = 128 + y" "y < 64"
    "cont_bits b1 = y" "unat b0 = 224 \<longrightarrow> 32 \<le> y" "unat b0 = 237 \<longrightarrow> y \<le> 31"
    by blast
  from cont_offset[OF assms(5)] obtain z where z: "unat b2 = 128 + z" "z < 64" "cont_bits b2 = z"
    by blast
  let ?c = "x * 4096 + y * 64 + z"
  have c: "(unat b0 - 0xE0) * 4096 + cont_bits b1 * 64 + cont_bits b2 = ?c" using x y z by simp
  have x15: "x \<le> 15" using r x by simp
  have lo: "x = 0 \<longrightarrow> 32 \<le> y" and hi: "x = 13 \<longrightarrow> y \<le> 31" using x y(4,5) by simp_all
  from x15 lo have b: "\<not> ?c < 128" "\<not> ?c < 2048" "?c < 65536"
    using y(2) z(2) by (cases "x = 0"; simp)+
  consider "x \<le> 12" | "x = 13" | "14 \<le> x" by arith
  then have "?c < 55296 \<or> 57344 \<le> ?c \<and> ?c \<le> 1114111"
  proof cases
    case 1 with y(2) z(2) show ?thesis by simp
  next
    case 2 with hi z(2) show ?thesis by simp
  next
    case 3 with x15 y(2) z(2) show ?thesis by simp
  qed
  then show "encodable ((unat b0 - 0xE0) * 4096 + cont_bits b1 * 64 + cont_bits b2)"
    unfolding c by (simp add: encodable_def)
  have "encode_cp ?c =
      [of_nat (224 + ?c div 4096), of_nat (128 + ?c div 64 mod 64), of_nat (128 + ?c mod 64)]"
    using b by (simp add: encode_cp_def)
  also have "\<dots> = [of_nat (unat b0), of_nat (unat b1), of_nat (unat b2)]"
    by (simp only: split3[OF y(2) z(2)] x y(1) z(1))
  finally show "encode_cp ((unat b0 - 0xE0) * 4096 + cont_bits b1 * 64 + cont_bits b2)
      = [b0, b1, b2]"
    unfolding c by simp
qed

lemma four_bytes:
  assumes "0xF0 \<le> b0" "b0 \<le> (0xF4::byte)" "second_lo b0 \<le> b1" "b1 \<le> second_hi b0"
    "is_cont b2" "is_cont b3"
  shows "encodable ((unat b0 - 0xF0) * 262144 + cont_bits b1 * 4096 + cont_bits b2 * 64
      + cont_bits b3)"
    "encode_cp ((unat b0 - 0xF0) * 262144 + cont_bits b1 * 4096 + cont_bits b2 * 64
      + cont_bits b3) = [b0, b1, b2, b3]"
proof -
  have r: "240 \<le> unat b0" "unat b0 \<le> 244" using assms(1,2) by (simp_all add: word_le_nat_alt)
  then obtain x where x: "unat b0 = 240 + x" using le_iff_add[of 240 "unat b0"] by auto
  from second_offset[OF assms(3,4)] obtain y where y: "unat b1 = 128 + y" "y < 64"
    "cont_bits b1 = y" "unat b0 = 240 \<longrightarrow> 16 \<le> y" "unat b0 = 244 \<longrightarrow> y \<le> 15"
    by blast
  from cont_offset[OF assms(5)] obtain z where z: "unat b2 = 128 + z" "z < 64" "cont_bits b2 = z"
    by blast
  from cont_offset[OF assms(6)] obtain w where w: "unat b3 = 128 + w" "w < 64" "cont_bits b3 = w"
    by blast
  let ?c = "x * 262144 + y * 4096 + z * 64 + w"
  have c: "(unat b0 - 0xF0) * 262144 + cont_bits b1 * 4096 + cont_bits b2 * 64 + cont_bits b3 = ?c"
    using x y z w by simp
  have x4: "x \<le> 4" using r x by simp
  have lo: "x = 0 \<longrightarrow> 16 \<le> y" and hi: "x = 4 \<longrightarrow> y \<le> 15" using x y(4,5) by simp_all
  from lo have b: "\<not> ?c < 128" "\<not> ?c < 2048" "\<not> ?c < 65536"
    by (cases "x = 0"; simp)+
  consider "x \<le> 3" | "x = 4" using x4 by arith
  then have "?c \<le> 1114111"
  proof cases
    case 1 with y(2) z(2) w(2) show ?thesis by simp
  next
    case 2 with hi z(2) w(2) show ?thesis by simp
  qed
  with b(3) show "encodable ((unat b0 - 0xF0) * 262144 + cont_bits b1 * 4096 + cont_bits b2 * 64
      + cont_bits b3)"
    unfolding c by (simp add: encodable_def)
  have "encode_cp ?c =
      [of_nat (240 + ?c div 262144), of_nat (128 + ?c div 4096 mod 64),
       of_nat (128 + ?c div 64 mod 64), of_nat (128 + ?c mod 64)]"
    using b by (simp add: encode_cp_def)
  also have "\<dots> = [of_nat (unat b0), of_nat (unat b1), of_nat (unat b2), of_nat (unat b3)]"
    by (simp only: split4[OF y(2) z(2) w(2)] x y(1) z(1) w(1))
  finally show "encode_cp ((unat b0 - 0xF0) * 262144 + cont_bits b1 * 4096 + cont_bits b2 * 64
      + cont_bits b3) = [b0, b1, b2, b3]"
    unfolding c by simp
qed

subsection \<open>Decoding, then encoding\<close>

lemma utf8_decode_Cons_cases:
  assumes "utf8_decode (b0 # bs) = Some t"
  obtains
    (one) t' where "b0 \<le> 0x7F" "utf8_decode bs = Some t'" "t = unat b0 # t'"
  | (two) b1 r t' where "0xC2 \<le> b0" "b0 \<le> 0xDF" "bs = b1 # r" "is_cont b1"
      "utf8_decode r = Some t'" "t = ((unat b0 - 0xC0) * 64 + cont_bits b1) # t'"
  | (three) b1 b2 r t' where "0xE0 \<le> b0" "b0 \<le> 0xEF" "bs = b1 # b2 # r"
      "second_lo b0 \<le> b1" "b1 \<le> second_hi b0" "is_cont b2" "utf8_decode r = Some t'"
      "t = ((unat b0 - 0xE0) * 4096 + cont_bits b1 * 64 + cont_bits b2) # t'"
  | (four) b1 b2 b3 r t' where "0xF0 \<le> b0" "b0 \<le> 0xF4" "bs = b1 # b2 # b3 # r"
      "second_lo b0 \<le> b1" "b1 \<le> second_hi b0" "is_cont b2" "is_cont b3"
      "utf8_decode r = Some t'"
      "t = ((unat b0 - 0xF0) * 262144 + cont_bits b1 * 4096 + cont_bits b2 * 64 + cont_bits b3) # t'"
proof -
  consider (a) "b0 \<le> 0x7F"
    | (b) "\<not> b0 \<le> 0x7F" "0xC2 \<le> b0 \<and> b0 \<le> 0xDF"
    | (c) "\<not> b0 \<le> 0x7F" "\<not> (0xC2 \<le> b0 \<and> b0 \<le> 0xDF)" "0xE0 \<le> b0 \<and> b0 \<le> 0xEF"
    | (d) "\<not> b0 \<le> 0x7F" "\<not> (0xC2 \<le> b0 \<and> b0 \<le> 0xDF)" "\<not> (0xE0 \<le> b0 \<and> b0 \<le> 0xEF)"
        "0xF0 \<le> b0 \<and> b0 \<le> 0xF4"
    | (e) "\<not> b0 \<le> 0x7F" "\<not> (0xC2 \<le> b0 \<and> b0 \<le> 0xDF)" "\<not> (0xE0 \<le> b0 \<and> b0 \<le> 0xEF)"
        "\<not> (0xF0 \<le> b0 \<and> b0 \<le> 0xF4)"
    by blast
  then show thesis
  proof cases
    case a
    with assms one show ?thesis by auto
  next
    case b
    with assms two show ?thesis by (auto split: list.splits if_splits)
  next
    case c
    with assms three show ?thesis by (auto split: list.splits if_splits)
  next
    case d
    with assms four show ?thesis by (auto split: list.splits if_splits)
  next
    case e
    with assms show ?thesis by simp
  qed
qed

text \<open>
  What decodes is made of scalar values only, and encodes back to the very same bytes:
  writing a text that was read changes neither the encoding nor a byte-order mark.
\<close>

lemma utf8_decode_sound:
  "utf8_decode bs = Some t \<Longrightarrow> list_all encodable t \<and> concat (map encode_cp t) = bs"
proof (induction "length bs" arbitrary: bs t rule: less_induct)
  case less
  show ?case
  proof (cases bs)
    case Nil
    with less.prems show ?thesis by simp
  next
    case (Cons b0 rest)
    with less.prems have "utf8_decode (b0 # rest) = Some t" by simp
    then show ?thesis
    proof (cases rule: utf8_decode_Cons_cases)
      case (one t')
      from less.hyps[OF _ one(2)] Cons
      have "list_all encodable t' \<and> concat (map encode_cp t') = rest" by simp
      with one(3) Cons one_byte[OF one(1)] show ?thesis by simp
    next
      case (two b1 r t')
      from less.hyps[OF _ two(5)] Cons two(3)
      have "list_all encodable t' \<and> concat (map encode_cp t') = r" by simp
      with two(3,6) Cons two_bytes[OF two(1,2,4)] show ?thesis by simp
    next
      case (three b1 b2 r t')
      from less.hyps[OF _ three(7)] Cons three(3)
      have "list_all encodable t' \<and> concat (map encode_cp t') = r" by simp
      with three(3,8) Cons three_bytes[OF three(1,2,4,5,6)] show ?thesis by simp
    next
      case (four b1 b2 b3 r t')
      from less.hyps[OF _ four(8)] Cons four(3)
      have "list_all encodable t' \<and> concat (map encode_cp t') = r" by simp
      with four(3,9) Cons four_bytes[OF four(1,2,4,5,6,7)] show ?thesis by simp
    qed
  qed
qed

lemma utf8_decode_encodable: "utf8_decode bs = Some t \<Longrightarrow> list_all encodable t"
  by (simp add: utf8_decode_sound)

lemma utf8_encode_Some: "list_all encodable t \<Longrightarrow> utf8_encode t = Some (concat (map encode_cp t))"
  by (simp add: utf8_encode_def)

lemma utf8_encode_decode: "utf8_decode bs = Some t \<Longrightarrow> utf8_encode t = Some bs"
  by (simp add: utf8_encode_def utf8_decode_sound)

lemma encode_append:
  "concat (map encode_cp (a @ b)) = concat (map encode_cp a) @ concat (map encode_cp b)"
  by simp

subsection \<open>Universal newlines\<close>

lemma list_all_universal_newlines:
  "list_all P t \<Longrightarrow> P 0x0A \<Longrightarrow> list_all P (universal_newlines t)"
proof (induction t rule: universal_newlines.induct)
  case 1
  then show ?case by simp
next
  case (2 c cs)
  show ?case
  proof (cases "c = 0x0D")
    case False
    with 2 show ?thesis by simp
  next
    case True
    show ?thesis
    proof (cases cs)
      case Nil
      with True 2 show ?thesis by simp
    next
      case (Cons d ds)
      with True 2 show ?thesis by (cases "d = 0x0A") simp_all
    qed
  qed
qed

lemma universal_newlines_no_cr: "0x0D \<notin> set t \<Longrightarrow> universal_newlines t = t"
  by (induction t) simp_all

lemma universal_newlines_drops_cr: "0x0D \<notin> set (universal_newlines t)"
proof (induction t rule: universal_newlines.induct)
  case 1
  then show ?case by simp
next
  case (2 c cs)
  show ?case
  proof (cases "c = 0x0D")
    case False
    with 2 show ?thesis by simp
  next
    case True
    show ?thesis
    proof (cases cs)
      case Nil
      with True show ?thesis by simp
    next
      case (Cons d ds)
      with True 2 show ?thesis by (cases "d = 0x0A") simp_all
    qed
  qed
qed

lemma utf8_decode_no_cr:
  assumes "utf8_decode bs = Some t" "0x0D \<notin> set bs"
  shows "0x0D \<notin> set t"
proof
  assume "0x0D \<in> set t"
  moreover have "(0x0D::byte) \<in> set (encode_cp 0x0D)" by (simp add: encode_cp_def)
  ultimately have "(0x0D::byte) \<in> set (concat (map encode_cp t))"
    by (auto intro!: bexI[of _ "0x0D"])
  with utf8_decode_sound[OF assms(1)] assms(2) show False by simp
qed

section \<open>Properties of the loop\<close>

subsection \<open>The two guards\<close>

lemma text_extension_iff:
  "list_ex (\<lambda>ext. endswith (lower filename) ext) text_extensions \<longleftrightarrow>
     endswith (lower filename) ''.txt'' \<or> endswith (lower filename) ''.md''"
  by (simp add: text_extensions_def)

lemma endswith_iff: "endswith s suffix \<longleftrightarrow> (\<exists>p. s = p @ suffix)"
proof
  assume "endswith s suffix"
  then have "take (length s - length suffix) s @ suffix = s"
    by (metis append_take_drop_id endswith_def)
  then show "\<exists>p. s = p @ suffix" by metis
next
  assume "\<exists>p. s = p @ suffix"
  then show "endswith s suffix" by (auto simp: endswith_def)
qed

lemma isfile_iff:
  "isfile d fs filename \<longleftrightarrow> (\<exists>i f. d filename = Some (File i) \<and> fs i = Some f)"
  by (auto simp: isfile_def split: option.splits node.splits)

lemma loop_body_selected:
  assumes "isfile (dir s) (files s) filename"
    "endswith (lower filename) ''.txt'' \<or> endswith (lower filename) ''.md''"
  shows "loop_body nl filename s = try_block nl filename s"
  using assms by (simp add: loop_body_def text_extension_iff)

lemma loop_body_not_selected:
  assumes "\<not> (isfile (dir s) (files s) filename
    \<and> (endswith (lower filename) ''.txt'' \<or> endswith (lower filename) ''.md''))"
  shows "loop_body nl filename s = s"
  using assms by (auto simp: loop_body_def text_extension_iff)

subsection \<open>The outcomes of the \<^verbatim>\<open>try\<close> statement\<close>

lemma try_block_read_raises:
  assumes "read_text (dir s) (files s) filename = Inl e" "e \<noteq> UnicodeDecodeError"
  shows "try_block nl filename s = s\<lparr>console := console s @ [Failed filename e]\<rparr>"
  using assms by (cases e) (simp_all add: try_block_def)

lemma try_block_undecodable:
  assumes "read_text (dir s) (files s) filename = Inl UnicodeDecodeError"
  shows "try_block nl filename s = s\<lparr>console := console s @ [SkippedNonText filename]\<rparr>"
  using assms by (simp add: try_block_def)

lemma try_block_write_raises:
  assumes "read_text (dir s) (files s) filename = Inr t"
    "write_text (dir s) (files s) filename (line1 @ nl @ line2 @ nl @ t) = (fs, Some e)"
    "e \<noteq> UnicodeDecodeError"
  shows "try_block nl filename s = s\<lparr>files := fs, console := console s @ [Failed filename e]\<rparr>"
  using assms by (cases e) (simp_all add: try_block_def)

lemma try_block_written:
  assumes "read_text (dir s) (files s) filename = Inr t"
    "write_text (dir s) (files s) filename (line1 @ nl @ line2 @ nl @ t) = (fs, None)"
  shows "try_block nl filename s =
    s\<lparr>files := fs, console := console s @ [Processed filename (nl_label nl)],
      processed_files := processed_files s + 1\<rparr>"
  using assms by (simp add: try_block_def)

lemma read_text_undecodable:
  assumes "d filename = Some (File i)" "fs i = Some f" "open_read_error f = None"
    "read_error f = None" "utf8_decode (content f) = None"
  shows "read_text d fs filename = Inl UnicodeDecodeError"
  using assms by (simp add: read_text_def)

lemma read_text_plain:
  assumes "d filename = Some (File i)" "fs i = Some (plain_file bs)" "utf8_decode bs = Some t"
  shows "read_text d fs filename = Inr (universal_newlines t)"
  using assms by (simp add: read_text_def plain_file_def)

lemma write_text_plain:
  assumes "d filename = Some (File i)" "fs i = Some (plain_file bs)" "list_all encodable t"
  shows "write_text d fs filename t = (fs(i \<mapsto> plain_file (concat (map encode_cp t))), None)"
  using assms utf8_encode_Some[OF assms(3)] by (simp add: write_text_def plain_file_def)

lemma try_block_console: "\<exists>e. console (try_block nl filename s) = console s @ [e]"
  by (auto simp: try_block_def Let_def split: sum.splits exn.splits prod.splits option.splits)

lemma try_block_console_neq: "console (try_block nl filename s) \<noteq> console s"
  using try_block_console[of nl filename s] by auto

lemma try_block_dir: "dir (try_block nl filename s) = dir s"
  by (auto simp: try_block_def Let_def split: sum.splits exn.splits prod.splits option.splits)

lemma loop_body_dir: "dir (loop_body nl filename s) = dir s"
  by (simp add: loop_body_def try_block_dir)

lemma for_loop_dir: "dir (for_loop nl listing s) = dir s"
  by (induction listing arbitrary: s) (simp_all add: loop_body_dir)

subsection \<open>Which files an iteration can change\<close>

lemma write_text_other:
  assumes "d filename \<noteq> Some (File j)"
  shows "fst (write_text d fs filename t) j = fs j"
  using assms
  by (auto simp: write_text_def split: option.splits node.splits prod.splits)

lemma try_block_files_other:
  assumes "dir s filename \<noteq> Some (File j)"
  shows "files (try_block nl filename s) j = files s j"
proof (cases "read_text (dir s) (files s) filename")
  case (Inl e)
  then show ?thesis by (cases e) (simp_all add: try_block_def)
next
  case (Inr t)
  obtain fs r where w: "write_text (dir s) (files s) filename (line1 @ nl @ line2 @ nl @ t) = (fs, r)"
    by (cases "write_text (dir s) (files s) filename (line1 @ nl @ line2 @ nl @ t)")
  have "fs j = files s j"
    using write_text_other[where d = "dir s" and filename = filename, OF assms,
        of "files s" "line1 @ nl @ line2 @ nl @ t"] w
    by simp
  with Inr w show ?thesis
    by (cases r) (auto simp: try_block_def split: exn.splits)
qed

lemma loop_body_files_untouched:
  assumes "\<not> (dir s filename = Some (File j)
    \<and> (endswith (lower filename) ''.txt'' \<or> endswith (lower filename) ''.md''))"
  shows "files (loop_body nl filename s) j = files s j"
proof (cases "dir s filename = Some (File j)")
  case True
  with assms have "loop_body nl filename s = s" by (intro loop_body_not_selected) simp
  then show ?thesis by simp
next
  case False
  then show ?thesis by (simp add: loop_body_def try_block_files_other)
qed

lemma for_loop_files_untouched:
  assumes "\<forall>n\<in>set listing. \<not> (dir s n = Some (File j)
    \<and> (endswith (lower n) ''.txt'' \<or> endswith (lower n) ''.md''))"
  shows "files (for_loop nl listing s) j = files s j"
  using assms
proof (induction listing arbitrary: s)
  case Nil
  then show ?case by simp
next
  case (Cons g rest)
  have "files (for_loop nl rest (loop_body nl g s)) j = files (loop_body nl g s) j"
    using Cons.prems by (intro Cons.IH) (simp add: loop_body_dir)
  also have "\<dots> = files s j"
    using Cons.prems by (intro loop_body_files_untouched) simp
  finally show ?case by simp
qed

lemma for_loop_all_skipped:
  "\<forall>n\<in>set listing. \<not> (isfile (dir s) (files s) n
      \<and> (endswith (lower n) ''.txt'' \<or> endswith (lower n) ''.md''))
    \<Longrightarrow> for_loop nl listing s = s"
  by (induction listing) (simp_all add: loop_body_not_selected)

text \<open>
  What an iteration does to the file of its name depends on that file alone (and on the
  entries of the directory, which no iteration changes).
\<close>

lemma loop_body_files_cong:
  assumes "dir s' = dir s" "files s' i = files s i" "dir s x = Some (File i)"
  shows "files (loop_body nl x s') i = files (loop_body nl x s) i"
  using assms
  by (auto simp: loop_body_def isfile_def try_block_def read_text_def write_text_def Let_def
      split: option.splits node.splits sum.splits exn.splits prod.splits)

lemma for_loop_files_once:
  assumes "distinct listing" "x \<in> set listing" "dir s x = Some (File i)"
    "\<forall>n\<in>set listing. n \<noteq> x \<longrightarrow> \<not> (dir s n = Some (File i)
      \<and> (endswith (lower n) ''.txt'' \<or> endswith (lower n) ''.md''))"
  shows "files (for_loop nl listing s) i = files (loop_body nl x s) i"
  using assms
proof (induction listing arbitrary: s)
  case Nil
  then show ?case by simp
next
  case (Cons g rest)
  show ?case
  proof (cases "x = g")
    case True
    with Cons.prems have "\<forall>n\<in>set rest. \<not> (dir (loop_body nl x s) n = Some (File i)
        \<and> (endswith (lower n) ''.txt'' \<or> endswith (lower n) ''.md''))"
      by (auto simp: loop_body_dir)
    from for_loop_files_untouched[OF this] True show ?thesis by simp
  next
    case False
    with Cons.prems have g: "\<not> (dir s g = Some (File i)
        \<and> (endswith (lower g) ''.txt'' \<or> endswith (lower g) ''.md''))"
      by auto
    have "files (for_loop nl rest (loop_body nl g s)) i
        = files (loop_body nl x (loop_body nl g s)) i"
      using Cons.prems False by (intro Cons.IH) (auto simp: loop_body_dir)
    also have "\<dots> = files (loop_body nl x s) i"
      using Cons.prems(3) loop_body_files_untouched[OF g]
      by (intro loop_body_files_cong) (simp_all add: loop_body_dir)
    finally show ?thesis by simp
  qed
qed

subsection \<open>A file that is read and written without an error\<close>

lemma resolve_nl_encodable: "list_all encodable (resolve_nl p newline_type)"
  by (cases p) (simp_all add: resolve_nl_def os_linesep_def encodable_def)

lemma loop_body_ok:
  assumes "dir s filename = Some (File i)" "files s i = Some (plain_file bs)"
    "utf8_decode bs = Some t" "list_all encodable nl"
    "endswith (lower filename) ''.txt'' \<or> endswith (lower filename) ''.md''"
  shows "loop_body nl filename s =
    s\<lparr>files := (files s)(i \<mapsto>
            plain_file (concat (map encode_cp (nl @ nl @ universal_newlines t)))),
      console := console s @ [Processed filename (nl_label nl)],
      processed_files := processed_files s + 1\<rparr>"
proof -
  have "list_all encodable (universal_newlines t)"
    using utf8_decode_encodable[OF assms(3)]
    by (rule list_all_universal_newlines) (simp add: encodable_def)
  with assms(4) have enc: "list_all encodable (line1 @ nl @ line2 @ nl @ universal_newlines t)"
    by (simp add: line1_def line2_def)
  have "isfile (dir s) (files s) filename" using assms(1,2) by (simp add: isfile_def)
  then have "loop_body nl filename s = try_block nl filename s"
    using assms(5) by (rule loop_body_selected)
  also have "\<dots> = s\<lparr>files := (files s)(i \<mapsto>
        plain_file (concat (map encode_cp (line1 @ nl @ line2 @ nl @ universal_newlines t)))),
      console := console s @ [Processed filename (nl_label nl)],
      processed_files := processed_files s + 1\<rparr>"
    by (rule try_block_written[OF
          read_text_plain[where d = "dir s" and fs = "files s", OF assms(1-3)]
          write_text_plain[where d = "dir s" and fs = "files s", OF assms(1,2) enc]])
  finally show ?thesis by (simp add: line1_def line2_def)
qed

subsection \<open>The run\<close>

lemma insert_lines_to_files_dir:
  "dir (insert_lines_to_files p listing d fs newline_type) = d"
  by (simp add: insert_lines_to_files_def Let_def for_loop_dir)

lemma insert_lines_to_files_files:
  "files (insert_lines_to_files p listing d fs newline_type) =
     files (for_loop (resolve_nl p newline_type) listing
       \<lparr>dir = d, files = fs, processed_files = 0, console = []\<rparr>)"
  by (simp add: insert_lines_to_files_def Let_def)

lemma insert_lines_to_files_processed:
  "processed_files (insert_lines_to_files p listing d fs newline_type) =
     processed_files (for_loop (resolve_nl p newline_type) listing
       \<lparr>dir = d, files = fs, processed_files = 0, console = []\<rparr>)"
  by (simp add: insert_lines_to_files_def Let_def)

lemma insert_lines_to_files_console:
  "console (insert_lines_to_files p listing d fs newline_type) =
     (let s = for_loop (resolve_nl p newline_type) listing
                \<lparr>dir = d, files = fs, processed_files = 0, console = []\<rparr>
      in console s @ [Total (processed_files s), UsedNewline (nl_label (resolve_nl p newline_type))])"
  by (simp add: insert_lines_to_files_def Let_def)

text \<open>
  A file that the listing names once as a candidate, read and written without an error,
  ends the run as two terminators and the text that was read.
\<close>

lemma run_rewrites_file:
  assumes "distinct listing" "filename \<in> set listing"
    "d filename = Some (File i)" "fs i = Some (plain_file bs)" "utf8_decode bs = Some t"
    "endswith (lower filename) ''.txt'' \<or> endswith (lower filename) ''.md''"
    "\<forall>n\<in>set listing. n \<noteq> filename \<longrightarrow> \<not> (d n = Some (File i)
      \<and> (endswith (lower n) ''.txt'' \<or> endswith (lower n) ''.md''))"
  shows "files (insert_lines_to_files p listing d fs newline_type) i =
    Some (plain_file (concat (map encode_cp
      (resolve_nl p newline_type @ resolve_nl p newline_type @ universal_newlines t))))"
proof -
  let ?s = "\<lparr>dir = d, files = fs, processed_files = 0, console = []\<rparr>"
  let ?nl = "resolve_nl p newline_type"
  have a: "dir ?s filename = Some (File i)" "files ?s i = Some (plain_file bs)"
    using assms(3,4) by simp_all
  have "\<forall>n\<in>set listing. n \<noteq> filename \<longrightarrow> \<not> (dir ?s n = Some (File i)
      \<and> (endswith (lower n) ''.txt'' \<or> endswith (lower n) ''.md''))"
    using assms(7) by simp
  from for_loop_files_once[OF assms(1,2) a(1) this, of ?nl]
    loop_body_ok[OF a assms(5) resolve_nl_encodable assms(6), of p newline_type]
  show ?thesis by (simp add: insert_lines_to_files_files)
qed

text \<open>
  A file without a carriage return keeps its bytes after the two terminators. A carriage
  return does not survive the run: see \<open>universal_newlines_drops_cr\<close>.
\<close>

lemma run_keeps_bytes_without_cr:
  assumes "distinct listing" "filename \<in> set listing"
    "d filename = Some (File i)" "fs i = Some (plain_file bs)" "utf8_decode bs = Some t"
    "endswith (lower filename) ''.txt'' \<or> endswith (lower filename) ''.md''"
    "\<forall>n\<in>set listing. n \<noteq> filename \<longrightarrow> \<not> (d n = Some (File i)
      \<and> (endswith (lower n) ''.txt'' \<or> endswith (lower n) ''.md''))"
    "0x0D \<notin> set bs"
  shows "files (insert_lines_to_files p listing d fs newline_type) i =
    Some (plain_file (concat (map encode_cp (resolve_nl p newline_type))
      @ concat (map encode_cp (resolve_nl p newline_type)) @ bs))"
proof -
  have "universal_newlines t = t"
    using utf8_decode_no_cr[OF assms(5,8)] by (rule universal_newlines_no_cr)
  moreover have "concat (map encode_cp t) = bs"
    using utf8_decode_sound[OF assms(5)] by simp
  ultimately show ?thesis
    using run_rewrites_file[where d = d and fs = fs and filename = filename,
        OF assms(1-7), of p newline_type]
    by simp
qed

lemma utf8_decode_hello: "utf8_decode (bytes_of ''hello'') = Some [0x68, 0x65, 0x6C, 0x6C, 0x6F]"
  by (simp add: bytes_of_def)

text \<open>The definitions to unfold when a run is evaluated on a concrete directory.\<close>

lemmas run_defs =
  insert_lines_to_files_def resolve_nl_def os_linesep_def nl_label_def loop_body_def
  try_block_def isfile_def read_text_def write_text_def text_extensions_def line1_def line2_def
  lower_def lower_char_def endswith_def bytes_of_def utf8_encode_def encodable_def encode_cp_def
  plain_file_def Let_def

text \<open>
  Two names of one file. When both are candidates the file is rewritten once for each
  name; a candidate that is a link to another entry rewrites that entry's file, also when
  the file is an entry of a subdirectory.
\<close>

lemma two_names_of_one_file:
  "(let d = [''a.txt'' \<mapsto> File 1, ''b.txt'' \<mapsto> File 1];
        fs = [1 \<mapsto> plain_file (bytes_of ''hello'')]
    in insert_lines_to_files Posix [''a.txt'', ''b.txt''] d fs ''lf'' =
         \<lparr>dir = d,
          files = [1 \<mapsto> plain_file
            (bytes_of (CHR 0x0A # CHR 0x0A # CHR 0x0A # CHR 0x0A # ''hello''))],
          processed_files = 2,
          console = [Processed ''a.txt'' ''LF'', Processed ''b.txt'' ''LF'', Total 2,
                     UsedNewline ''LF'']\<rparr>
     \<and> files (insert_lines_to_files Posix [''a.txt'', ''b.txt''] d fs ''crlf'') 1 =
         Some (plain_file (bytes_of
           (CHR 0x0D # CHR 0x0A # CHR 0x0D # CHR 0x0A # CHR 0x0A # CHR 0x0A # ''hello''))))"
  by (simp add: run_defs)

lemma link_rewrites_target:
  "(let d = [''link.txt'' \<mapsto> File 1, ''data.csv'' \<mapsto> File 1,
             ''sub'' \<mapsto> Dir [(''inner.csv'', File 1)]];
        fs = [1 \<mapsto> plain_file (bytes_of ''hello'')]
    in insert_lines_to_files Posix [''link.txt'', ''data.csv'', ''sub''] d fs ''lf'' =
         \<lparr>dir = d,
          files = [1 \<mapsto> plain_file (bytes_of (CHR 0x0A # CHR 0x0A # ''hello''))],
          processed_files = 1,
          console = [Processed ''link.txt'' ''LF'', Total 1, UsedNewline ''LF'']\<rparr>)"
  by (simp add: run_defs)

section \<open>The claims\<close>

text \<open>
  C1. A regular file whose name ends, case-insensitively, in an allow-listed extension,
  that opens, reads and writes without an error and whose content decodes to the text
  \<^verbatim>\<open>hello\<close>: the iteration on it under \<^verbatim>\<open>lf\<close> leaves the file with the bytes of
  \<^verbatim>\<open>"\n\nhello"\<close>, under \<^verbatim>\<open>crlf\<close> with the bytes of \<^verbatim>\<open>"\r\n\r\nhello"\<close>, prints the notice and
  counts the file. So does a whole run, when the listing names the file once and no
  other listed candidate is a name of the same file (a second candidate name of the file
  would have it rewritten a second time: \<open>two_names_of_one_file\<close>).
\<close>

theorem hello_rewritten:
  assumes "dir s filename = Some (File i)" and "files s i = Some (plain_file bs)"
    and "utf8_decode bs = Some (str_of ''hello'')"
    and "endswith (lower filename) ''.txt'' \<or> endswith (lower filename) ''.md''"
  shows "loop_body (resolve_nl p ''lf'') filename s =
           s\<lparr>files := (files s)(i \<mapsto> plain_file (bytes_of (CHR 0x0A # CHR 0x0A # ''hello''))),
             console := console s @ [Processed filename ''LF''],
             processed_files := processed_files s + 1\<rparr>
       \<and> loop_body (resolve_nl p ''crlf'') filename s =
           s\<lparr>files := (files s)(i \<mapsto> plain_file
               (bytes_of (CHR 0x0D # CHR 0x0A # CHR 0x0D # CHR 0x0A # ''hello''))),
             console := console s @ [Processed filename ''CRLF''],
             processed_files := processed_files s + 1\<rparr>
       \<and> (distinct listing \<and> filename \<in> set listing
            \<and> (\<forall>n\<in>set listing. n \<noteq> filename \<longrightarrow> \<not> (dir s n = Some (File i)
                 \<and> (endswith (lower n) ''.txt'' \<or> endswith (lower n) ''.md'')))
          \<longrightarrow> files (insert_lines_to_files p listing (dir s) (files s) ''lf'') i =
                Some (plain_file (bytes_of (CHR 0x0A # CHR 0x0A # ''hello'')))
            \<and> files (insert_lines_to_files p listing (dir s) (files s) ''crlf'') i =
                Some (plain_file
                  (bytes_of (CHR 0x0D # CHR 0x0A # CHR 0x0D # CHR 0x0A # ''hello''))))"
proof -
  have t: "utf8_decode bs = Some [0x68, 0x65, 0x6C, 0x6C, 0x6F]"
    using assms(3) by (simp add: str_of_def)
  have lf: "concat (map encode_cp (resolve_nl p ''lf'' @ resolve_nl p ''lf''
        @ universal_newlines [0x68, 0x65, 0x6C, 0x6C, 0x6F]))
      = bytes_of (CHR 0x0A # CHR 0x0A # ''hello'')"
    by (simp add: resolve_nl_def encode_cp_def bytes_of_def)
  have crlf: "concat (map encode_cp (resolve_nl p ''crlf'' @ resolve_nl p ''crlf''
        @ universal_newlines [0x68, 0x65, 0x6C, 0x6C, 0x6F]))
      = bytes_of (CHR 0x0D # CHR 0x0A # CHR 0x0D # CHR 0x0A # ''hello'')"
    by (simp add: resolve_nl_def encode_cp_def bytes_of_def)
  have l: "nl_label (resolve_nl p ''lf'') = ''LF''" "nl_label (resolve_nl p ''crlf'') = ''CRLF''"
    by (simp_all add: nl_label_def resolve_nl_def)
  show ?thesis
  proof (intro conjI impI)
    show "loop_body (resolve_nl p ''lf'') filename s =
           s\<lparr>files := (files s)(i \<mapsto> plain_file (bytes_of (CHR 0x0A # CHR 0x0A # ''hello''))),
             console := console s @ [Processed filename ''LF''],
             processed_files := processed_files s + 1\<rparr>"
      using loop_body_ok[OF assms(1,2) t resolve_nl_encodable assms(4), of p "''lf''"]
      unfolding lf l by simp
    show "loop_body (resolve_nl p ''crlf'') filename s =
           s\<lparr>files := (files s)(i \<mapsto> plain_file
               (bytes_of (CHR 0x0D # CHR 0x0A # CHR 0x0D # CHR 0x0A # ''hello''))),
             console := console s @ [Processed filename ''CRLF''],
             processed_files := processed_files s + 1\<rparr>"
      using loop_body_ok[OF assms(1,2) t resolve_nl_encodable assms(4), of p "''crlf''"]
      unfolding crlf l by simp
  next
    assume h: "distinct listing \<and> filename \<in> set listing
            \<and> (\<forall>n\<in>set listing. n \<noteq> filename \<longrightarrow> \<not> (dir s n = Some (File i)
                 \<and> (endswith (lower n) ''.txt'' \<or> endswith (lower n) ''.md'')))"
    then have h1: "distinct listing" and h2: "filename \<in> set listing"
      and h3: "\<forall>n\<in>set listing. n \<noteq> filename \<longrightarrow> \<not> (dir s n = Some (File i)
                 \<and> (endswith (lower n) ''.txt'' \<or> endswith (lower n) ''.md''))"
      by simp_all
    show "files (insert_lines_to_files p listing (dir s) (files s) ''lf'') i =
                Some (plain_file (bytes_of (CHR 0x0A # CHR 0x0A # ''hello'')))"
      using run_rewrites_file[where d = "dir s" and fs = "files s" and filename = filename,
          OF h1 h2 assms(1,2) t assms(4) h3, of p "''lf''"]
      unfolding lf .
    show "files (insert_lines_to_files p listing (dir s) (files s) ''crlf'') i =
                Some (plain_file
                  (bytes_of (CHR 0x0D # CHR 0x0A # CHR 0x0D # CHR 0x0A # ''hello'')))"
      using run_rewrites_file[where d = "dir s" and fs = "files s" and filename = filename,
          OF h1 h2 assms(1,2) t assms(4) h3, of p "''crlf''"]
      unfolding crlf .
  qed
qed

theorem hello_rewritten_witness:
  "(let s = \<lparr>dir = [''NOTES.TXT'' \<mapsto> File 1, ''data.csv'' \<mapsto> File 1],
             files = [1 \<mapsto> plain_file (bytes_of ''hello'')],
             processed_files = 0, console = []\<rparr>
    in endswith (lower ''NOTES.TXT'') ''.txt''
     \<and> loop_body (resolve_nl Posix ''lf'') ''NOTES.TXT'' s =
         s\<lparr>files := [1 \<mapsto> plain_file (bytes_of (CHR 0x0A # CHR 0x0A # ''hello''))],
           console := [Processed ''NOTES.TXT'' ''LF''], processed_files := 1\<rparr>
     \<and> loop_body (resolve_nl Posix ''crlf'') ''NOTES.TXT'' s =
         s\<lparr>files := [1 \<mapsto> plain_file
             (bytes_of (CHR 0x0D # CHR 0x0A # CHR 0x0D # CHR 0x0A # ''hello''))],
           console := [Processed ''NOTES.TXT'' ''CRLF''], processed_files := 1\<rparr>
     \<and> files (insert_lines_to_files Posix [''data.csv'', ''NOTES.TXT''] (dir s) (files s) ''lf'') 1 =
         Some (plain_file (bytes_of (CHR 0x0A # CHR 0x0A # ''hello'')))
     \<and> files (insert_lines_to_files Posix [''data.csv'', ''NOTES.TXT''] (dir s) (files s) ''crlf'') 1 =
         Some (plain_file (bytes_of (CHR 0x0D # CHR 0x0A # CHR 0x0D # CHR 0x0A # ''hello''))))"
proof -
  let ?s = "\<lparr>dir = [''NOTES.TXT'' \<mapsto> File 1, ''data.csv'' \<mapsto> File 1],
             files = [1 \<mapsto> plain_file (bytes_of ''hello'')],
             processed_files = 0, console = []\<rparr>"
  have e: "endswith (lower ''NOTES.TXT'') ''.txt''"
    by (simp add: lower_def lower_char_def endswith_def char_of_eq_iff)
  have n: "\<not> (endswith (lower ''data.csv'') ''.txt'' \<or> endswith (lower ''data.csv'') ''.md'')"
    by (simp add: lower_def lower_char_def endswith_def)
  have a1: "dir ?s ''NOTES.TXT'' = Some (File 1)" by simp
  have a2: "files ?s 1 = Some (plain_file (bytes_of ''hello''))" by simp
  have a3: "utf8_decode (bytes_of ''hello'') = Some (str_of ''hello'')"
    by (simp add: bytes_of_def str_of_def)
  have a4: "endswith (lower ''NOTES.TXT'') ''.txt'' \<or> endswith (lower ''NOTES.TXT'') ''.md''"
    using e by simp
  have a5: "distinct [''data.csv'', ''NOTES.TXT''] \<and> ''NOTES.TXT'' \<in> set [''data.csv'', ''NOTES.TXT'']
      \<and> (\<forall>n\<in>set [''data.csv'', ''NOTES.TXT'']. n \<noteq> ''NOTES.TXT'' \<longrightarrow> \<not> (dir ?s n = Some (File 1)
           \<and> (endswith (lower n) ''.txt'' \<or> endswith (lower n) ''.md'')))"
    using n by simp
  note r = hello_rewritten[where s = ?s and filename = "''NOTES.TXT''" and i = 1 and p = Posix
      and listing = "[''data.csv'', ''NOTES.TXT'']", OF a1 a2 a3 a4]
  from r[THEN conjunct1] r[THEN conjunct2, THEN conjunct1]
    r[THEN conjunct2, THEN conjunct2, THEN mp, OF a5] e
  show ?thesis unfolding Let_def by simp
qed

text \<open>
  C2. The claim is that a rewritten file is two terminators followed by its original
  content, character for character, with no newline translation. The code writes after
  the terminators what \<^verbatim>\<open>f.read()\<close> returned, and it opened the file for reading in
  universal-newlines mode. On a file \<^verbatim>\<open>a.txt\<close> with the four bytes \<^verbatim>\<open>a\r\nb\<close> the run
  writes \<^verbatim>\<open>\n\na\nb\<close> under \<^verbatim>\<open>lf\<close> and \<^verbatim>\<open>\r\n\r\na\nb\<close> under \<^verbatim>\<open>crlf\<close>: the carriage return
  of the original content is gone. (A file without a carriage return does keep its
  bytes: \<open>run_keeps_bytes_without_cr\<close>.)
\<close>

theorem carriage_returns_translated:
  "(let d = [''a.txt'' \<mapsto> File 1];
        fs = [1 \<mapsto> plain_file (bytes_of [CHR ''a'', CHR 0x0D, CHR 0x0A, CHR ''b''])]
    in insert_lines_to_files Posix [''a.txt''] d fs ''lf'' =
         \<lparr>dir = d,
          files = [1 \<mapsto> plain_file (bytes_of [CHR 0x0A, CHR 0x0A, CHR ''a'', CHR 0x0A, CHR ''b''])],
          processed_files = 1,
          console = [Processed ''a.txt'' ''LF'', Total 1, UsedNewline ''LF'']\<rparr>
     \<and> insert_lines_to_files Posix [''a.txt''] d fs ''crlf'' =
         \<lparr>dir = d,
          files = [1 \<mapsto> plain_file
            (bytes_of [CHR 0x0D, CHR 0x0A, CHR 0x0D, CHR 0x0A, CHR ''a'', CHR 0x0A, CHR ''b''])],
          processed_files = 1,
          console = [Processed ''a.txt'' ''CRLF'', Total 1, UsedNewline ''CRLF'']\<rparr>)"
  by (simp add: run_defs)

text \<open>
  C3. A file of the allow-list whose bytes do not decode as UTF-8 is skipped: the iteration
  changes nothing but the console, where it records the file as a non-text file; the
  file keeps its bytes, the counter of processed files stays, and the loop goes on with
  the rest of the listing.
\<close>

theorem undecodable_file_skipped:
  assumes "dir s filename = Some (File i)" and "files s i = Some f"
    and "endswith (lower filename) ''.txt'' \<or> endswith (lower filename) ''.md''"
    and "open_read_error f = None" and "read_error f = None"
    and "utf8_decode (content f) = None"
  shows "loop_body nl filename s = s\<lparr>console := console s @ [SkippedNonText filename]\<rparr>
       \<and> dir (loop_body nl filename s) filename = Some (File i)
       \<and> files (loop_body nl filename s) i = Some f
       \<and> processed_files (loop_body nl filename s) = processed_files s
       \<and> for_loop nl (filename # rest) s =
           for_loop nl rest (s\<lparr>console := console s @ [SkippedNonText filename]\<rparr>)"
proof -
  have "isfile (dir s) (files s) filename" using assms(1,2) by (simp add: isfile_def)
  then have "loop_body nl filename s = try_block nl filename s"
    using assms(3) by (rule loop_body_selected)
  also have "\<dots> = s\<lparr>console := console s @ [SkippedNonText filename]\<rparr>"
    by (rule try_block_undecodable)
      (rule read_text_undecodable[where d = "dir s" and fs = "files s", OF assms(1,2,4,5,6)])
  finally show ?thesis using assms(1,2) by simp
qed

theorem undecodable_file_skipped_witness:
  "(let f = plain_file [0xFF, 0xFE, 0x00];
        s = \<lparr>dir = [''logo.txt'' \<mapsto> File 1], files = [1 \<mapsto> f],
             processed_files = 0, console = []\<rparr>
    in utf8_decode (content f) = None
     \<and> loop_body [0x0A] ''logo.txt'' s = s\<lparr>console := [SkippedNonText ''logo.txt'']\<rparr>
     \<and> files (loop_body [0x0A] ''logo.txt'' s) 1 = Some f
     \<and> processed_files (loop_body [0x0A] ''logo.txt'' s) = 0
     \<and> for_loop [0x0A] [''logo.txt''] s = s\<lparr>console := [SkippedNonText ''logo.txt'']\<rparr>)"
  using undecodable_file_skipped[where
      s = "\<lparr>dir = [''logo.txt'' \<mapsto> File 1], files = [1 \<mapsto> plain_file [0xFF, 0xFE, 0x00]],
             processed_files = 0, console = []\<rparr>"
      and filename = "''logo.txt''" and i = 1 and f = "plain_file [0xFF, 0xFE, 0x00]"
      and nl = "[0x0A]" and rest = "[]"]
  by (simp add: lower_def lower_char_def endswith_def Let_def plain_file_def)

text \<open>
  C4. Whatever a file of the allow-list raises while it is read or written, other than a
  decoding failure, is caught: an exception of any class from \<^verbatim>\<open>open(filepath, 'r')\<close>, from
  \<^verbatim>\<open>f.read()\<close>, from \<^verbatim>\<open>open(filepath, 'w')\<close>, or from \<^verbatim>\<open>f.write\<close> and the closing of the file.
  The iteration logs the file name with the exception, leaves the counter, and the loop
  goes on with the rest of the listing. The file keeps its bytes, except when the write
  failed after the file was opened for writing: then it holds the bytes that had reached
  it.
\<close>

theorem file_error_caught:
  assumes "dir s filename = Some (File i)" and "files s i = Some f"
    and "endswith (lower filename) ''.txt'' \<or> endswith (lower filename) ''.md''"
    and "e \<noteq> UnicodeDecodeError"
  shows "(open_read_error f = Some e
          \<or> (open_read_error f = None \<and> read_error f = Some e)
          \<or> (open_read_error f = None \<and> read_error f = None
               \<and> utf8_decode (content f) \<noteq> None \<and> open_write_error f = Some e)
        \<longrightarrow> loop_body nl filename s = s\<lparr>console := console s @ [Failed filename e]\<rparr>
          \<and> for_loop nl (filename # rest) s =
              for_loop nl rest (s\<lparr>console := console s @ [Failed filename e]\<rparr>))
       \<and> (open_read_error f = None \<and> read_error f = None
            \<and> utf8_decode (content f) = Some t \<and> open_write_error f = None
            \<and> list_all encodable nl \<and> write_error f = Some (e, n)
        \<longrightarrow> loop_body nl filename s =
              s\<lparr>files := (files s)(i \<mapsto> f\<lparr>content :=
                     take n (concat (map encode_cp (nl @ nl @ universal_newlines t)))\<rparr>),
                console := console s @ [Failed filename e]\<rparr>
          \<and> processed_files (loop_body nl filename s) = processed_files s
          \<and> for_loop nl (filename # rest) s =
              for_loop nl rest
                (s\<lparr>files := (files s)(i \<mapsto> f\<lparr>content :=
                       take n (concat (map encode_cp (nl @ nl @ universal_newlines t)))\<rparr>),
                  console := console s @ [Failed filename e]\<rparr>))"
proof -
  have "isfile (dir s) (files s) filename" using assms(1,2) by (simp add: isfile_def)
  then have sel: "loop_body nl filename s = try_block nl filename s"
    using assms(3) by (rule loop_body_selected)
  show ?thesis
  proof (intro conjI impI)
    assume h: "open_read_error f = Some e
          \<or> (open_read_error f = None \<and> read_error f = Some e)
          \<or> (open_read_error f = None \<and> read_error f = None
               \<and> utf8_decode (content f) \<noteq> None \<and> open_write_error f = Some e)"
    have "try_block nl filename s = s\<lparr>console := console s @ [Failed filename e]\<rparr>"
    proof -
      consider (a) "open_read_error f = Some e"
        | (b) "open_read_error f = None" "read_error f = Some e"
        | (c) "open_read_error f = None" "read_error f = None"
            "utf8_decode (content f) \<noteq> None" "open_write_error f = Some e"
        using h by auto
      then show ?thesis
      proof cases
        case a
        with assms(1,2) have "read_text (dir s) (files s) filename = Inl e"
          by (simp add: read_text_def)
        then show ?thesis using assms(4) by (rule try_block_read_raises)
      next
        case b
        with assms(1,2) have "read_text (dir s) (files s) filename = Inl e"
          by (simp add: read_text_def)
        then show ?thesis using assms(4) by (rule try_block_read_raises)
      next
        case c
        then obtain u where u: "utf8_decode (content f) = Some u" by auto
        with c assms(1,2)
        have r: "read_text (dir s) (files s) filename = Inr (universal_newlines u)"
          by (simp add: read_text_def)
        have w: "write_text (dir s) (files s) filename
            (line1 @ nl @ line2 @ nl @ universal_newlines u) = (files s, Some e)"
          using c assms(1,2) by (simp add: write_text_def)
        from try_block_write_raises[OF r w assms(4)] show ?thesis by simp
      qed
    qed
    with sel show "loop_body nl filename s = s\<lparr>console := console s @ [Failed filename e]\<rparr>"
      and "for_loop nl (filename # rest) s =
              for_loop nl rest (s\<lparr>console := console s @ [Failed filename e]\<rparr>)"
      by simp_all
  next
    let ?bs = "concat (map encode_cp (nl @ nl @ universal_newlines t))"
    assume h: "open_read_error f = None \<and> read_error f = None
            \<and> utf8_decode (content f) = Some t \<and> open_write_error f = None
            \<and> list_all encodable nl \<and> write_error f = Some (e, n)"
    have "list_all encodable (universal_newlines t)"
      using h utf8_decode_encodable[of "content f" t]
      by (intro list_all_universal_newlines) (simp_all add: encodable_def)
    with h have "list_all encodable (line1 @ nl @ line2 @ nl @ universal_newlines t)"
      by (simp add: line1_def line2_def)
    from utf8_encode_Some[OF this]
    have enc: "utf8_encode (line1 @ nl @ line2 @ nl @ universal_newlines t) = Some ?bs"
      by (simp add: line1_def line2_def)
    have r: "read_text (dir s) (files s) filename = Inr (universal_newlines t)"
      using h assms(1,2) by (simp add: read_text_def)
    have w: "write_text (dir s) (files s) filename
        (line1 @ nl @ line2 @ nl @ universal_newlines t)
        = ((files s)(i \<mapsto> f\<lparr>content := take n ?bs\<rparr>), Some e)"
      using h assms(1,2) enc by (simp add: write_text_def)
    from try_block_write_raises[OF r w assms(4)] sel
    have lb: "loop_body nl filename s =
        s\<lparr>files := (files s)(i \<mapsto> f\<lparr>content := take n ?bs\<rparr>),
          console := console s @ [Failed filename e]\<rparr>"
      by simp
    then show "loop_body nl filename s =
        s\<lparr>files := (files s)(i \<mapsto> f\<lparr>content := take n ?bs\<rparr>),
          console := console s @ [Failed filename e]\<rparr>" .
    from lb show "processed_files (loop_body nl filename s) = processed_files s" by simp
    from lb show "for_loop nl (filename # rest) s =
        for_loop nl rest
          (s\<lparr>files := (files s)(i \<mapsto> f\<lparr>content := take n ?bs\<rparr>),
            console := console s @ [Failed filename e]\<rparr>)"
      by simp
  qed
qed

theorem file_error_caught_witness:
  "(let f1 = (plain_file (bytes_of ''hello''))\<lparr>open_read_error := Some (OSError ''Permission denied'')\<rparr>;
        f2 = (plain_file (bytes_of ''hello''))\<lparr>read_error := Some (OtherException ''MemoryError'' [])\<rparr>;
        f3 = (plain_file (bytes_of ''hello''))\<lparr>open_write_error := Some (OSError ''Read-only file system'')\<rparr>;
        f4 = (plain_file (bytes_of ''hello''))\<lparr>write_error := Some (OSError ''No space left on device'', 3)\<rparr>;
        s = \<lparr>dir = [''a.txt'' \<mapsto> File 1, ''b.md'' \<mapsto> File 2, ''c.txt'' \<mapsto> File 3,
                    ''d.txt'' \<mapsto> File 4],
             files = [1 \<mapsto> f1, 2 \<mapsto> f2, 3 \<mapsto> f3, 4 \<mapsto> f4],
             processed_files = 0, console = []\<rparr>
    in loop_body [0x0A] ''a.txt'' s = s\<lparr>console := [Failed ''a.txt'' (OSError ''Permission denied'')]\<rparr>
     \<and> loop_body [0x0A] ''b.md'' s =
         s\<lparr>console := [Failed ''b.md'' (OtherException ''MemoryError'' [])]\<rparr>
     \<and> loop_body [0x0A] ''c.txt'' s =
         s\<lparr>console := [Failed ''c.txt'' (OSError ''Read-only file system'')]\<rparr>
     \<and> loop_body [0x0A] ''d.txt'' s =
         s\<lparr>files := (files s)(4 \<mapsto> f4\<lparr>content := bytes_of [CHR 0x0A, CHR 0x0A, CHR ''h'']\<rparr>),
           console := [Failed ''d.txt'' (OSError ''No space left on device'')]\<rparr>
     \<and> for_loop [0x0A] [''a.txt'', ''b.md''] s =
         for_loop [0x0A] [''b.md''] (s\<lparr>console := [Failed ''a.txt'' (OSError ''Permission denied'')]\<rparr>))"
proof -
  let ?f1 = "(plain_file (bytes_of ''hello''))\<lparr>open_read_error := Some (OSError ''Permission denied'')\<rparr>"
  let ?f2 = "(plain_file (bytes_of ''hello''))\<lparr>read_error := Some (OtherException ''MemoryError'' [])\<rparr>"
  let ?f3 = "(plain_file (bytes_of ''hello''))\<lparr>open_write_error := Some (OSError ''Read-only file system'')\<rparr>"
  let ?f4 = "(plain_file (bytes_of ''hello''))\<lparr>write_error := Some (OSError ''No space left on device'', 3)\<rparr>"
  let ?s = "\<lparr>dir = [''a.txt'' \<mapsto> File 1, ''b.md'' \<mapsto> File 2, ''c.txt'' \<mapsto> File 3,
                    ''d.txt'' \<mapsto> File 4],
             files = [1 \<mapsto> ?f1, 2 \<mapsto> ?f2, 3 \<mapsto> ?f3, 4 \<mapsto> ?f4],
             processed_files = 0, console = []\<rparr>"
  have x: "endswith (lower ''a.txt'') ''.txt'' \<or> endswith (lower ''a.txt'') ''.md''"
    "endswith (lower ''b.md'') ''.txt'' \<or> endswith (lower ''b.md'') ''.md''"
    "endswith (lower ''c.txt'') ''.txt'' \<or> endswith (lower ''c.txt'') ''.md''"
    "endswith (lower ''d.txt'') ''.txt'' \<or> endswith (lower ''d.txt'') ''.md''"
    by (simp_all add: lower_def lower_char_def endswith_def)
  have d: "utf8_decode (bytes_of ''hello'') \<noteq> None" by (simp add: bytes_of_def)
  have h1: "open_read_error ?f1 = Some (OSError ''Permission denied'')
      \<or> (open_read_error ?f1 = None \<and> read_error ?f1 = Some (OSError ''Permission denied''))
      \<or> (open_read_error ?f1 = None \<and> read_error ?f1 = None
           \<and> utf8_decode (content ?f1) \<noteq> None
           \<and> open_write_error ?f1 = Some (OSError ''Permission denied''))"
    by simp
  have h2: "open_read_error ?f2 = Some (OtherException ''MemoryError'' [])
      \<or> (open_read_error ?f2 = None \<and> read_error ?f2 = Some (OtherException ''MemoryError'' []))
      \<or> (open_read_error ?f2 = None \<and> read_error ?f2 = None
           \<and> utf8_decode (content ?f2) \<noteq> None
           \<and> open_write_error ?f2 = Some (OtherException ''MemoryError'' []))"
    by (simp add: plain_file_def)
  have h3: "open_read_error ?f3 = Some (OSError ''Read-only file system'')
      \<or> (open_read_error ?f3 = None \<and> read_error ?f3 = Some (OSError ''Read-only file system''))
      \<or> (open_read_error ?f3 = None \<and> read_error ?f3 = None
           \<and> utf8_decode (content ?f3) \<noteq> None
           \<and> open_write_error ?f3 = Some (OSError ''Read-only file system''))"
    using d by (simp add: plain_file_def)
  have h4: "open_read_error ?f4 = None \<and> read_error ?f4 = None
      \<and> utf8_decode (content ?f4) = Some [0x68, 0x65, 0x6C, 0x6C, 0x6F]
      \<and> open_write_error ?f4 = None
      \<and> list_all encodable [0x0A] \<and> write_error ?f4 = Some (OSError ''No space left on device'', 3)"
    by (simp add: plain_file_def bytes_of_def encodable_def)
  note r1 = file_error_caught[where s = ?s and filename = "''a.txt''" and i = 1 and f = ?f1
      and e = "OSError ''Permission denied''" and nl = "[0x0A]" and rest = "[''b.md'']",
      THEN conjunct1, THEN mp, OF _ _ x(1) _ h1]
  note r2 = file_error_caught[where s = ?s and filename = "''b.md''" and i = 2 and f = ?f2
      and e = "OtherException ''MemoryError'' []" and nl = "[0x0A]" and rest = "[]",
      THEN conjunct1, THEN mp, OF _ _ x(2) _ h2]
  note r3 = file_error_caught[where s = ?s and filename = "''c.txt''" and i = 3 and f = ?f3
      and e = "OSError ''Read-only file system''" and nl = "[0x0A]" and rest = "[]",
      THEN conjunct1, THEN mp, OF _ _ x(3) _ h3]
  note r4 = file_error_caught[where s = ?s and filename = "''d.txt''" and i = 4 and f = ?f4
      and e = "OSError ''No space left on device''" and nl = "[0x0A]" and rest = "[]"
      and t = "[0x68, 0x65, 0x6C, 0x6C, 0x6F]" and n = 3,
      THEN conjunct2, THEN mp, OF _ _ x(4) _ h4]
  have c1: "loop_body [0x0A] ''a.txt'' ?s = ?s\<lparr>console := [Failed ''a.txt'' (OSError ''Permission denied'')]\<rparr>"
    "for_loop [0x0A] [''a.txt'', ''b.md''] ?s =
      for_loop [0x0A] [''b.md''] (?s\<lparr>console := [Failed ''a.txt'' (OSError ''Permission denied'')]\<rparr>)"
    using r1 by simp_all
  have c2: "loop_body [0x0A] ''b.md'' ?s =
      ?s\<lparr>console := [Failed ''b.md'' (OtherException ''MemoryError'' [])]\<rparr>"
    using r2 by simp
  have c3: "loop_body [0x0A] ''c.txt'' ?s =
      ?s\<lparr>console := [Failed ''c.txt'' (OSError ''Read-only file system'')]\<rparr>"
    using r3 by simp
  have c4: "loop_body [0x0A] ''d.txt'' ?s =
      ?s\<lparr>files := (files ?s)(4 \<mapsto> ?f4\<lparr>content := bytes_of [CHR 0x0A, CHR 0x0A, CHR ''h'']\<rparr>),
         console := [Failed ''d.txt'' (OSError ''No space left on device'')]\<rparr>"
    using r4 by (simp add: encode_cp_def bytes_of_def)
  from c1 c2 c3 c4 show ?thesis unfolding Let_def by blast
qed

text \<open>
  C5. An entry is selected, that is, the iteration reaches the \<^verbatim>\<open>try\<close> statement and
  prints a notice for it, exactly when it is a regular file and its lowercased name ends
  in \<^verbatim>\<open>.txt\<close> or \<^verbatim>\<open>.md\<close>; otherwise the iteration does nothing. The condition reads the
  kind of the entry and its name only, never its content.
\<close>

theorem selected_iff_regular_file_with_extension:
  "(if (\<exists>i f. dir s filename = Some (File i) \<and> files s i = Some f)
       \<and> (endswith (lower filename) ''.txt'' \<or> endswith (lower filename) ''.md'')
    then loop_body nl filename s = try_block nl filename s
       \<and> console (loop_body nl filename s) \<noteq> console s
    else loop_body nl filename s = s)"
proof (cases "isfile (dir s) (files s) filename
    \<and> (endswith (lower filename) ''.txt'' \<or> endswith (lower filename) ''.md'')")
  case True
  then have "loop_body nl filename s = try_block nl filename s"
    by (simp add: loop_body_selected)
  with True show ?thesis by (simp add: isfile_iff try_block_console_neq)
next
  case False
  then have "loop_body nl filename s = s" by (rule loop_body_not_selected)
  with False show ?thesis by (simp add: isfile_iff)
qed

theorem selected_iff_regular_file_with_extension_witness:
  "(let s = \<lparr>dir = [''NOTES.TXT'' \<mapsto> File 1, ''data.csv'' \<mapsto> File 2, ''old.md'' \<mapsto> Dir []],
             files = [1 \<mapsto> plain_file (bytes_of ''hello''), 2 \<mapsto> plain_file (bytes_of ''hello'')],
             processed_files = 0, console = []\<rparr>
    in lower ''NOTES.TXT'' = ''notes.txt''
     \<and> loop_body [0x0A] ''NOTES.TXT'' s = try_block [0x0A] ''NOTES.TXT'' s
     \<and> console (loop_body [0x0A] ''NOTES.TXT'' s) \<noteq> console s
     \<and> loop_body [0x0A] ''data.csv'' s = s
     \<and> loop_body [0x0A] ''old.md'' s = s)"
proof -
  let ?s = "\<lparr>dir = [''NOTES.TXT'' \<mapsto> File 1, ''data.csv'' \<mapsto> File 2, ''old.md'' \<mapsto> Dir []],
             files = [1 \<mapsto> plain_file (bytes_of ''hello''), 2 \<mapsto> plain_file (bytes_of ''hello'')],
             processed_files = 0, console = []\<rparr>"
  have l: "lower ''NOTES.TXT'' = ''notes.txt''"
    by (simp add: lower_def lower_char_def char_of_eq_iff)
  have n1: "(\<exists>i f. dir ?s ''NOTES.TXT'' = Some (File i) \<and> files ?s i = Some f)
      \<and> (endswith (lower ''NOTES.TXT'') ''.txt'' \<or> endswith (lower ''NOTES.TXT'') ''.md'')"
    by (simp add: l endswith_def)
  have n2: "\<not> ((\<exists>i f. dir ?s ''data.csv'' = Some (File i) \<and> files ?s i = Some f)
      \<and> (endswith (lower ''data.csv'') ''.txt'' \<or> endswith (lower ''data.csv'') ''.md''))"
    by (simp add: lower_def lower_char_def endswith_def)
  have n3: "\<not> ((\<exists>i f. dir ?s ''old.md'' = Some (File i) \<and> files ?s i = Some f)
      \<and> (endswith (lower ''old.md'') ''.txt'' \<or> endswith (lower ''old.md'') ''.md''))"
    by simp
  note selected_iff_regular_file_with_extension[of ?s "''NOTES.TXT''" "[0x0A]", unfolded if_P[OF n1]]
    selected_iff_regular_file_with_extension[of ?s "''data.csv''" "[0x0A]", unfolded if_not_P[OF n2]]
    selected_iff_regular_file_with_extension[of ?s "''old.md''" "[0x0A]", unfolded if_not_P[OF n3]]
  with l show ?thesis unfolding Let_def by blast
qed

text \<open>
  C6. Three frame properties of a run. When no entry of the listing is a regular file with
  an allow-listed extension, the run changes no file and reports 0 processed files. The
  run changes no entry of the directory, so every subdirectory is the same after it with
  all its entries, and it changes the content of a file only through a listed name of the
  target directory that is a candidate: never through a name inside a subdirectory. In a
  directory listed as one readable, writable, decodable file of the allow-list and one
  entry without an allow-listed extension, in either order, the run counts and reports 1
  processed file and rewrites the first; every other file, so the second entry when it is
  another file, is as it was.
\<close>

theorem only_candidates_touched:
  "((\<forall>n\<in>set listing. \<not> (isfile d fs n
          \<and> (endswith (lower n) ''.txt'' \<or> endswith (lower n) ''.md'')))
      \<longrightarrow> insert_lines_to_files p listing d fs newline_type =
           \<lparr>dir = d, files = fs, processed_files = 0,
            console = [Total 0, UsedNewline (nl_label (resolve_nl p newline_type))]\<rparr>)
   \<and> dir (insert_lines_to_files p listing d fs newline_type) = d
   \<and> ((\<forall>n\<in>set listing. \<not> (d n = Some (File j)
          \<and> (endswith (lower n) ''.txt'' \<or> endswith (lower n) ''.md'')))
      \<longrightarrow> files (insert_lines_to_files p listing d fs newline_type) j = fs j)
   \<and> (d a = Some (File i) \<and> fs i = Some (plain_file bs) \<and> utf8_decode bs = Some t
        \<and> (endswith (lower a) ''.txt'' \<or> endswith (lower a) ''.md'')
        \<and> \<not> (endswith (lower b) ''.txt'' \<or> endswith (lower b) ''.md'')
        \<and> (listing = [a, b] \<or> listing = [b, a])
      \<longrightarrow> insert_lines_to_files p listing d fs newline_type =
           \<lparr>dir = d,
            files = fs(i \<mapsto> plain_file (concat (map encode_cp
              (resolve_nl p newline_type @ resolve_nl p newline_type @ universal_newlines t)))),
            processed_files = 1,
            console = [Processed a (nl_label (resolve_nl p newline_type)), Total 1,
                       UsedNewline (nl_label (resolve_nl p newline_type))]\<rparr>
        \<and> (\<forall>k. k \<noteq> i \<longrightarrow> files (insert_lines_to_files p listing d fs newline_type) k = fs k))"
proof (intro conjI impI)
  let ?nl = "resolve_nl p newline_type"
  let ?s = "\<lparr>dir = d, files = fs, processed_files = 0, console = []\<rparr>"
  assume "\<forall>n\<in>set listing. \<not> (isfile d fs n
          \<and> (endswith (lower n) ''.txt'' \<or> endswith (lower n) ''.md''))"
  then have "\<forall>n\<in>set listing. \<not> (isfile (dir ?s) (files ?s) n
      \<and> (endswith (lower n) ''.txt'' \<or> endswith (lower n) ''.md''))"
    by simp
  then have "for_loop ?nl listing ?s = ?s" by (rule for_loop_all_skipped)
  then show "insert_lines_to_files p listing d fs newline_type =
           \<lparr>dir = d, files = fs, processed_files = 0,
            console = [Total 0, UsedNewline (nl_label ?nl)]\<rparr>"
    by (simp add: insert_lines_to_files_def Let_def)
next
  show "dir (insert_lines_to_files p listing d fs newline_type) = d"
    by (rule insert_lines_to_files_dir)
next
  let ?s = "\<lparr>dir = d, files = fs, processed_files = 0, console = []\<rparr>"
  assume "\<forall>n\<in>set listing. \<not> (d n = Some (File j)
          \<and> (endswith (lower n) ''.txt'' \<or> endswith (lower n) ''.md''))"
  then have "\<forall>n\<in>set listing. \<not> (dir ?s n = Some (File j)
      \<and> (endswith (lower n) ''.txt'' \<or> endswith (lower n) ''.md''))"
    by simp
  from for_loop_files_untouched[OF this]
  show "files (insert_lines_to_files p listing d fs newline_type) j = fs j"
    by (simp add: insert_lines_to_files_files)
next
  let ?nl = "resolve_nl p newline_type"
  let ?s = "\<lparr>dir = d, files = fs, processed_files = 0, console = []\<rparr>"
  let ?f' = "plain_file (concat (map encode_cp (?nl @ ?nl @ universal_newlines t)))"
  assume h: "d a = Some (File i) \<and> fs i = Some (plain_file bs) \<and> utf8_decode bs = Some t
        \<and> (endswith (lower a) ''.txt'' \<or> endswith (lower a) ''.md'')
        \<and> \<not> (endswith (lower b) ''.txt'' \<or> endswith (lower b) ''.md'')
        \<and> (listing = [a, b] \<or> listing = [b, a])"
  have skip: "loop_body ?nl b s' = s'" for s'
    using h by (intro loop_body_not_selected) simp
  have g: "dir ?s a = Some (File i)" "files ?s i = Some (plain_file bs)" "utf8_decode bs = Some t"
    "endswith (lower a) ''.txt'' \<or> endswith (lower a) ''.md''"
    using h by simp_all
  have ok: "loop_body ?nl a ?s =
      ?s\<lparr>files := (files ?s)(i \<mapsto> ?f'),
         console := console ?s @ [Processed a (nl_label ?nl)],
         processed_files := processed_files ?s + 1\<rparr>"
    by (rule loop_body_ok[OF g(1-3) resolve_nl_encodable g(4)])
  from h have "listing = [a, b] \<or> listing = [b, a]" by simp
  then have "for_loop ?nl listing ?s = loop_body ?nl a ?s"
    by (auto simp: skip)
  with ok have run: "insert_lines_to_files p listing d fs newline_type =
           \<lparr>dir = d, files = fs(i \<mapsto> ?f'), processed_files = 1,
            console = [Processed a (nl_label ?nl), Total 1, UsedNewline (nl_label ?nl)]\<rparr>"
    by (simp add: insert_lines_to_files_def Let_def)
  then show "insert_lines_to_files p listing d fs newline_type =
           \<lparr>dir = d, files = fs(i \<mapsto> ?f'), processed_files = 1,
            console = [Processed a (nl_label ?nl), Total 1, UsedNewline (nl_label ?nl)]\<rparr>" .
  from run show "\<forall>k. k \<noteq> i \<longrightarrow> files (insert_lines_to_files p listing d fs newline_type) k = fs k"
    by simp
qed

theorem only_candidates_touched_witness:
  "(let sub = Dir [(''inner.txt'', File 3)];
        d1 = [''data.csv'' \<mapsto> File 1, ''old.txt'' \<mapsto> sub];
        d2 = [''notes.txt'' \<mapsto> File 2, ''data.csv'' \<mapsto> File 1, ''sub'' \<mapsto> sub];
        fs = [1 \<mapsto> plain_file (bytes_of ''a,b''), 2 \<mapsto> plain_file (bytes_of ''hello''),
              3 \<mapsto> plain_file (bytes_of ''inner'')]
    in insert_lines_to_files Posix [''data.csv'', ''old.txt''] d1 fs ''lf'' =
         \<lparr>dir = d1, files = fs, processed_files = 0, console = [Total 0, UsedNewline ''LF'']\<rparr>
     \<and> dir (insert_lines_to_files Posix [''notes.txt'', ''data.csv'', ''sub''] d2 fs ''lf'') ''sub''
         = Some sub
     \<and> files (insert_lines_to_files Posix [''notes.txt'', ''data.csv'', ''sub''] d2 fs ''lf'') 3
         = Some (plain_file (bytes_of ''inner''))
     \<and> insert_lines_to_files Posix [''notes.txt'', ''data.csv''] d2 fs ''lf'' =
         \<lparr>dir = d2,
          files = fs(2 \<mapsto> plain_file (bytes_of (CHR 0x0A # CHR 0x0A # ''hello''))),
          processed_files = 1,
          console = [Processed ''notes.txt'' ''LF'', Total 1, UsedNewline ''LF'']\<rparr>
     \<and> files (insert_lines_to_files Posix [''notes.txt'', ''data.csv''] d2 fs ''lf'') 1 =
         Some (plain_file (bytes_of ''a,b'')))"
proof -
  let ?sub = "Dir [(''inner.txt'', File 3)]"
  let ?d1 = "[''data.csv'' \<mapsto> File 1, ''old.txt'' \<mapsto> ?sub]"
  let ?d2 = "[''notes.txt'' \<mapsto> File 2, ''data.csv'' \<mapsto> File 1, ''sub'' \<mapsto> ?sub]"
  let ?fs = "[1::nat \<mapsto> plain_file (bytes_of ''a,b''), 2 \<mapsto> plain_file (bytes_of ''hello''),
              3 \<mapsto> plain_file (bytes_of ''inner'')]"
  have no_ext: "\<not> (endswith (lower ''data.csv'') ''.txt'' \<or> endswith (lower ''data.csv'') ''.md'')"
    "\<not> (endswith (lower ''sub'') ''.txt'' \<or> endswith (lower ''sub'') ''.md'')"
    by (simp_all add: lower_def lower_char_def endswith_def)
  have an_ext: "endswith (lower ''notes.txt'') ''.txt'' \<or> endswith (lower ''notes.txt'') ''.md''"
    by (simp add: lower_def lower_char_def endswith_def)
  have h1: "\<forall>n\<in>set [''data.csv'', ''old.txt'']. \<not> (isfile ?d1 ?fs n
      \<and> (endswith (lower n) ''.txt'' \<or> endswith (lower n) ''.md''))"
    using no_ext by (simp add: isfile_def)
  have h2: "\<forall>n\<in>set [''notes.txt'', ''data.csv'', ''sub'']. \<not> (?d2 n = Some (File 3)
      \<and> (endswith (lower n) ''.txt'' \<or> endswith (lower n) ''.md''))"
    by simp
  have h3: "?d2 ''notes.txt'' = Some (File 2) \<and> ?fs 2 = Some (plain_file (bytes_of ''hello''))
      \<and> utf8_decode (bytes_of ''hello'') = Some [0x68, 0x65, 0x6C, 0x6C, 0x6F]
      \<and> (endswith (lower ''notes.txt'') ''.txt'' \<or> endswith (lower ''notes.txt'') ''.md'')
      \<and> \<not> (endswith (lower ''data.csv'') ''.txt'' \<or> endswith (lower ''data.csv'') ''.md'')
      \<and> ([''notes.txt'', ''data.csv''] = [''notes.txt'', ''data.csv'']
         \<or> [''notes.txt'', ''data.csv''] = [''data.csv'', ''notes.txt''])"
    using no_ext an_ext by (simp add: utf8_decode_hello)
  note a = only_candidates_touched[where listing = "[''data.csv'', ''old.txt'']" and d = ?d1
      and fs = ?fs and p = Posix and newline_type = "''lf''", THEN conjunct1, THEN mp, OF h1]
  note b = only_candidates_touched[where listing = "[''notes.txt'', ''data.csv'', ''sub'']"
      and d = ?d2 and fs = ?fs and p = Posix and newline_type = "''lf''",
      THEN conjunct2, THEN conjunct1]
  note c = only_candidates_touched[where listing = "[''notes.txt'', ''data.csv'', ''sub'']"
      and d = ?d2 and fs = ?fs and p = Posix and newline_type = "''lf''" and j = 3,
      THEN conjunct2, THEN conjunct2, THEN conjunct1, THEN mp, OF h2]
  note e = only_candidates_touched[where listing = "[''notes.txt'', ''data.csv'']" and d = ?d2
      and fs = ?fs and p = Posix and newline_type = "''lf''" and a = "''notes.txt''"
      and b = "''data.csv''" and i = 2 and bs = "bytes_of ''hello''"
      and t = "[0x68, 0x65, 0x6C, 0x6C, 0x6F]",
      THEN conjunct2, THEN conjunct2, THEN conjunct2, THEN mp, OF h3]
  have v: "concat (map encode_cp (resolve_nl Posix ''lf'' @ resolve_nl Posix ''lf''
      @ universal_newlines [0x68, 0x65, 0x6C, 0x6C, 0x6F])) = bytes_of (CHR 0x0A # CHR 0x0A # ''hello'')"
    by (simp add: resolve_nl_def encode_cp_def bytes_of_def)
  have l: "nl_label (resolve_nl Posix ''lf'') = ''LF''"
    by (simp add: nl_label_def resolve_nl_def)
  from a b c e[THEN conjunct1] e[THEN conjunct2, THEN spec, of 1] show ?thesis
    unfolding Let_def v l by simp
qed

text \<open>
  C7. The terminator of a run is \<open>resolve_nl\<close> of the platform and the newline policy:
  \<^verbatim>\<open>'lf'\<close> gives \<^verbatim>\<open>"\n"\<close>, \<^verbatim>\<open>'crlf'\<close> gives \<^verbatim>\<open>"\r\n"\<close>, \<^verbatim>\<open>'system'\<close> gives \<^verbatim>\<open>os.linesep\<close>. The run
  is the loop over the listing with that one terminator, then the two closing lines with
  its label. Every file that the listing names once as a candidate, read and written
  without an error, begins after the run with the encoding of that terminator, twice,
  whichever file of the listing it is.
\<close>

theorem terminator_resolved_for_run:
  "resolve_nl p ''lf'' = [0x0A]
   \<and> resolve_nl p ''crlf'' = [0x0D, 0x0A]
   \<and> resolve_nl p ''system'' = os_linesep p
   \<and> insert_lines_to_files p listing d fs newline_type =
       (let s = for_loop (resolve_nl p newline_type) listing
                  \<lparr>dir = d, files = fs, processed_files = 0, console = []\<rparr>
        in s\<lparr>console := console s @ [Total (processed_files s),
                                      UsedNewline (nl_label (resolve_nl p newline_type))]\<rparr>)
   \<and> (distinct listing \<and> filename \<in> set listing \<and> d filename = Some (File i)
        \<and> fs i = Some (plain_file bs) \<and> utf8_decode bs = Some t
        \<and> (endswith (lower filename) ''.txt'' \<or> endswith (lower filename) ''.md'')
        \<and> (\<forall>n\<in>set listing. n \<noteq> filename \<longrightarrow> \<not> (d n = Some (File i)
             \<and> (endswith (lower n) ''.txt'' \<or> endswith (lower n) ''.md'')))
      \<longrightarrow> files (insert_lines_to_files p listing d fs newline_type) i =
            Some (plain_file
              (concat (map encode_cp (resolve_nl p newline_type))
               @ concat (map encode_cp (resolve_nl p newline_type))
               @ concat (map encode_cp (universal_newlines t)))))"
proof (intro conjI impI)
  show "resolve_nl p ''lf'' = [0x0A]" by (simp add: resolve_nl_def)
  show "resolve_nl p ''crlf'' = [0x0D, 0x0A]" by (simp add: resolve_nl_def)
  show "resolve_nl p ''system'' = os_linesep p" by (simp add: resolve_nl_def)
  show "insert_lines_to_files p listing d fs newline_type =
       (let s = for_loop (resolve_nl p newline_type) listing
                  \<lparr>dir = d, files = fs, processed_files = 0, console = []\<rparr>
        in s\<lparr>console := console s @ [Total (processed_files s),
                                      UsedNewline (nl_label (resolve_nl p newline_type))]\<rparr>)"
    by (simp add: insert_lines_to_files_def Let_def)
next
  assume h: "distinct listing \<and> filename \<in> set listing \<and> d filename = Some (File i)
        \<and> fs i = Some (plain_file bs) \<and> utf8_decode bs = Some t
        \<and> (endswith (lower filename) ''.txt'' \<or> endswith (lower filename) ''.md'')
        \<and> (\<forall>n\<in>set listing. n \<noteq> filename \<longrightarrow> \<not> (d n = Some (File i)
             \<and> (endswith (lower n) ''.txt'' \<or> endswith (lower n) ''.md'')))"
  then have g: "distinct listing" "filename \<in> set listing" "d filename = Some (File i)"
    "fs i = Some (plain_file bs)" "utf8_decode bs = Some t"
    "endswith (lower filename) ''.txt'' \<or> endswith (lower filename) ''.md''"
    "\<forall>n\<in>set listing. n \<noteq> filename \<longrightarrow> \<not> (d n = Some (File i)
       \<and> (endswith (lower n) ''.txt'' \<or> endswith (lower n) ''.md''))"
    by simp_all
  have "files (insert_lines_to_files p listing d fs newline_type) i =
      Some (plain_file (concat (map encode_cp
        (resolve_nl p newline_type @ resolve_nl p newline_type @ universal_newlines t))))"
    by (rule run_rewrites_file[where d = d and fs = fs and filename = filename, OF g])
  then show "files (insert_lines_to_files p listing d fs newline_type) i =
      Some (plain_file
        (concat (map encode_cp (resolve_nl p newline_type))
         @ concat (map encode_cp (resolve_nl p newline_type))
         @ concat (map encode_cp (universal_newlines t))))"
    by (simp only: encode_append)
qed

theorem terminator_resolved_for_run_witness:
  "(let d = [''a.txt'' \<mapsto> File 1, ''b.md'' \<mapsto> File 2];
        fs = [1 \<mapsto> plain_file (bytes_of ''hello''), 2 \<mapsto> plain_file (bytes_of ''bye'')];
        s = insert_lines_to_files Windows [''a.txt'', ''b.md''] d fs ''system''
    in resolve_nl Windows ''system'' = [0x0D, 0x0A]
     \<and> files s 1 = Some (plain_file
           (bytes_of (CHR 0x0D # CHR 0x0A # CHR 0x0D # CHR 0x0A # ''hello'')))
     \<and> files s 2 = Some (plain_file
           (bytes_of (CHR 0x0D # CHR 0x0A # CHR 0x0D # CHR 0x0A # ''bye'')))
     \<and> s = \<lparr>dir = d,
             files = [1 \<mapsto> plain_file
                        (bytes_of (CHR 0x0D # CHR 0x0A # CHR 0x0D # CHR 0x0A # ''hello'')),
                      2 \<mapsto> plain_file
                        (bytes_of (CHR 0x0D # CHR 0x0A # CHR 0x0D # CHR 0x0A # ''bye''))],
             processed_files = 2,
             console = [Processed ''a.txt'' ''CRLF'', Processed ''b.md'' ''CRLF'', Total 2,
                        UsedNewline ''CRLF'']\<rparr>)"
proof -
  let ?d = "[''a.txt'' \<mapsto> File 1, ''b.md'' \<mapsto> File 2]"
  let ?fs = "[1::nat \<mapsto> plain_file (bytes_of ''hello''), 2 \<mapsto> plain_file (bytes_of ''bye'')]"
  let ?run = "insert_lines_to_files Windows [''a.txt'', ''b.md''] ?d ?fs ''system''"
  have ha: "distinct [''a.txt'', ''b.md''] \<and> ''a.txt'' \<in> set [''a.txt'', ''b.md'']
      \<and> ?d ''a.txt'' = Some (File 1) \<and> ?fs 1 = Some (plain_file (bytes_of ''hello''))
      \<and> utf8_decode (bytes_of ''hello'') = Some [0x68, 0x65, 0x6C, 0x6C, 0x6F]
      \<and> (endswith (lower ''a.txt'') ''.txt'' \<or> endswith (lower ''a.txt'') ''.md'')
      \<and> (\<forall>n\<in>set [''a.txt'', ''b.md'']. n \<noteq> ''a.txt'' \<longrightarrow> \<not> (?d n = Some (File 1)
           \<and> (endswith (lower n) ''.txt'' \<or> endswith (lower n) ''.md'')))"
    by (simp add: bytes_of_def lower_def lower_char_def endswith_def)
  have hb: "distinct [''a.txt'', ''b.md''] \<and> ''b.md'' \<in> set [''a.txt'', ''b.md'']
      \<and> ?d ''b.md'' = Some (File 2) \<and> ?fs 2 = Some (plain_file (bytes_of ''bye''))
      \<and> utf8_decode (bytes_of ''bye'') = Some [0x62, 0x79, 0x65]
      \<and> (endswith (lower ''b.md'') ''.txt'' \<or> endswith (lower ''b.md'') ''.md'')
      \<and> (\<forall>n\<in>set [''a.txt'', ''b.md'']. n \<noteq> ''b.md'' \<longrightarrow> \<not> (?d n = Some (File 2)
           \<and> (endswith (lower n) ''.txt'' \<or> endswith (lower n) ''.md'')))"
    by (simp add: bytes_of_def lower_def lower_char_def endswith_def)
  have w: "os_linesep Windows = [0x0D, 0x0A]" by (simp add: os_linesep_def)
  note m = terminator_resolved_for_run[where p = Windows, THEN conjunct2, THEN conjunct2,
      THEN conjunct1]
  note r = terminator_resolved_for_run[where p = Windows and newline_type = "''system''"
      and listing = "[''a.txt'', ''b.md'']" and d = ?d and fs = ?fs,
      THEN conjunct2, THEN conjunct2, THEN conjunct2, THEN conjunct1]
  note a = terminator_resolved_for_run[where p = Windows and newline_type = "''system''"
      and listing = "[''a.txt'', ''b.md'']" and d = ?d and fs = ?fs and filename = "''a.txt''"
      and i = 1 and bs = "bytes_of ''hello''" and t = "[0x68, 0x65, 0x6C, 0x6C, 0x6F]",
      THEN conjunct2, THEN conjunct2, THEN conjunct2, THEN conjunct2, THEN mp, OF ha]
  note b = terminator_resolved_for_run[where p = Windows and newline_type = "''system''"
      and listing = "[''a.txt'', ''b.md'']" and d = ?d and fs = ?fs and filename = "''b.md''"
      and i = 2 and bs = "bytes_of ''bye''" and t = "[0x62, 0x79, 0x65]",
      THEN conjunct2, THEN conjunct2, THEN conjunct2, THEN conjunct2, THEN mp, OF hb]
  have c1: "resolve_nl Windows ''system'' = [0x0D, 0x0A]" using m w by simp
  have c2: "files ?run 1 = Some (plain_file
      (bytes_of (CHR 0x0D # CHR 0x0A # CHR 0x0D # CHR 0x0A # ''hello'')))"
    using a by (simp add: c1 encode_cp_def bytes_of_def)
  have c3: "files ?run 2 = Some (plain_file
      (bytes_of (CHR 0x0D # CHR 0x0A # CHR 0x0D # CHR 0x0A # ''bye'')))"
    using b by (simp add: c1 encode_cp_def bytes_of_def)
  have l: "for_loop [0x0D, 0x0A] [''a.txt'', ''b.md'']
        \<lparr>dir = ?d, files = ?fs, processed_files = 0, console = []\<rparr>
      = \<lparr>dir = ?d,
         files = [1 \<mapsto> plain_file
                    (bytes_of (CHR 0x0D # CHR 0x0A # CHR 0x0D # CHR 0x0A # ''hello'')),
                  2 \<mapsto> plain_file
                    (bytes_of (CHR 0x0D # CHR 0x0A # CHR 0x0D # CHR 0x0A # ''bye''))],
         processed_files = 2,
         console = [Processed ''a.txt'' ''CRLF'', Processed ''b.md'' ''CRLF'']\<rparr>"
    by (simp add: run_defs fun_upd_twist)
  have c4: "?run = \<lparr>dir = ?d,
         files = [1 \<mapsto> plain_file
                    (bytes_of (CHR 0x0D # CHR 0x0A # CHR 0x0D # CHR 0x0A # ''hello'')),
                  2 \<mapsto> plain_file
                    (bytes_of (CHR 0x0D # CHR 0x0A # CHR 0x0D # CHR 0x0A # ''bye''))],
         processed_files = 2,
         console = [Processed ''a.txt'' ''CRLF'', Processed ''b.md'' ''CRLF'', Total 2,
                    UsedNewline ''CRLF'']\<rparr>"
    using r unfolding c1 l by (simp add: nl_label_def)
  from c1 c2 c3 c4 show ?thesis unfolding Let_def by blast
qed

text \<open>
  C8. The claim is that a second run under the same newline mode leaves two more
  terminators followed by the content after the first run. Two runs under \<^verbatim>\<open>crlf\<close> on a
  file \<^verbatim>\<open>a.txt\<close> with the content \<^verbatim>\<open>hello\<close>: the first run leaves \<^verbatim>\<open>\r\n\r\nhello\<close>; the
  second reads that back with both terminators translated to \<^verbatim>\<open>\n\<close> and leaves
  \<^verbatim>\<open>\r\n\r\n\n\nhello\<close>, which is neither four terminators before the original content nor
  two terminators before the content after the first run. Under \<^verbatim>\<open>lf\<close> the same file
  does get four terminators: \<^verbatim>\<open>\n\n\n\nhello\<close>.
\<close>

theorem second_crlf_run_translates_header:
  "(let d = [''a.txt'' \<mapsto> File 1];
        fs = [1 \<mapsto> plain_file (bytes_of ''hello'')];
        s1 = insert_lines_to_files Posix [''a.txt''] d fs ''crlf'';
        s2 = insert_lines_to_files Posix [''a.txt''] (dir s1) (files s1) ''crlf'';
        u1 = insert_lines_to_files Posix [''a.txt''] d fs ''lf'';
        u2 = insert_lines_to_files Posix [''a.txt''] (dir u1) (files u1) ''lf''
    in files s1 1 = Some (plain_file
           (bytes_of (CHR 0x0D # CHR 0x0A # CHR 0x0D # CHR 0x0A # ''hello'')))
     \<and> files s2 1 = Some (plain_file
           (bytes_of (CHR 0x0D # CHR 0x0A # CHR 0x0D # CHR 0x0A # CHR 0x0A # CHR 0x0A # ''hello'')))
     \<and> processed_files s2 = 1
     \<and> files u2 1 = Some (plain_file
           (bytes_of (CHR 0x0A # CHR 0x0A # CHR 0x0A # CHR 0x0A # ''hello''))))"
  by (simp add: run_defs)

text \<open>
  C9. \<^verbatim>\<open>insert_lines_to_files\<close> rejects no value of \<^verbatim>\<open>newline_type\<close>: under every string
  other than \<^verbatim>\<open>'lf'\<close> and \<^verbatim>\<open>'crlf'\<close> the run is the loop over the listing with \<^verbatim>\<open>os.linesep\<close>
  as the terminator, followed by the two closing lines, and a file that the listing names
  once as a candidate is rewritten with \<^verbatim>\<open>os.linesep\<close> twice before the text that was
  read. The argument parser alone restricts \<^verbatim>\<open>--newline\<close> to its three choices.
\<close>

theorem unknown_newline_type_falls_back:
  "(newline_type \<noteq> ''lf'' \<and> newline_type \<noteq> ''crlf''
      \<longrightarrow> insert_lines_to_files p listing d fs newline_type =
           (let s = for_loop (os_linesep p) listing
                      \<lparr>dir = d, files = fs, processed_files = 0, console = []\<rparr>
            in s\<lparr>console := console s @ [Total (processed_files s),
                                          UsedNewline (nl_label (os_linesep p))]\<rparr>))
   \<and> (newline_type \<noteq> ''lf'' \<and> newline_type \<noteq> ''crlf''
        \<and> distinct listing \<and> filename \<in> set listing \<and> d filename = Some (File i)
        \<and> fs i = Some (plain_file bs) \<and> utf8_decode bs = Some t
        \<and> (endswith (lower filename) ''.txt'' \<or> endswith (lower filename) ''.md'')
        \<and> (\<forall>n\<in>set listing. n \<noteq> filename \<longrightarrow> \<not> (d n = Some (File i)
             \<and> (endswith (lower n) ''.txt'' \<or> endswith (lower n) ''.md'')))
      \<longrightarrow> files (insert_lines_to_files p listing d fs newline_type) i =
            Some (plain_file (concat (map encode_cp
              (os_linesep p @ os_linesep p @ universal_newlines t)))))
   \<and> parse_newline (Some v) =
       (if v = ''lf'' \<or> v = ''crlf'' \<or> v = ''system'' then Inr v else Inl (SystemExit 2))"
proof (intro conjI impI)
  assume "newline_type \<noteq> ''lf'' \<and> newline_type \<noteq> ''crlf''"
  then have "resolve_nl p newline_type = os_linesep p" by (simp add: resolve_nl_def)
  then show "insert_lines_to_files p listing d fs newline_type =
           (let s = for_loop (os_linesep p) listing
                      \<lparr>dir = d, files = fs, processed_files = 0, console = []\<rparr>
            in s\<lparr>console := console s @ [Total (processed_files s),
                                          UsedNewline (nl_label (os_linesep p))]\<rparr>)"
    by (simp add: insert_lines_to_files_def Let_def)
next
  assume h: "newline_type \<noteq> ''lf'' \<and> newline_type \<noteq> ''crlf''
        \<and> distinct listing \<and> filename \<in> set listing \<and> d filename = Some (File i)
        \<and> fs i = Some (plain_file bs) \<and> utf8_decode bs = Some t
        \<and> (endswith (lower filename) ''.txt'' \<or> endswith (lower filename) ''.md'')
        \<and> (\<forall>n\<in>set listing. n \<noteq> filename \<longrightarrow> \<not> (d n = Some (File i)
             \<and> (endswith (lower n) ''.txt'' \<or> endswith (lower n) ''.md'')))"
  then have g: "distinct listing" "filename \<in> set listing" "d filename = Some (File i)"
    "fs i = Some (plain_file bs)" "utf8_decode bs = Some t"
    "endswith (lower filename) ''.txt'' \<or> endswith (lower filename) ''.md''"
    "\<forall>n\<in>set listing. n \<noteq> filename \<longrightarrow> \<not> (d n = Some (File i)
       \<and> (endswith (lower n) ''.txt'' \<or> endswith (lower n) ''.md''))"
    by simp_all
  from h have "resolve_nl p newline_type = os_linesep p" by (simp add: resolve_nl_def)
  with run_rewrites_file[where d = d and fs = fs and filename = filename, OF g, of p newline_type]
  show "files (insert_lines_to_files p listing d fs newline_type) i =
            Some (plain_file (concat (map encode_cp
              (os_linesep p @ os_linesep p @ universal_newlines t))))"
    by simp
next
  show "parse_newline (Some v) =
       (if v = ''lf'' \<or> v = ''crlf'' \<or> v = ''system'' then Inr v else Inl (SystemExit 2))"
    by (simp add: parse_newline_def newline_choices_def)
qed

theorem unknown_newline_type_falls_back_witness:
  "(let d = [''a.txt'' \<mapsto> File 1];
        fs = [1 \<mapsto> plain_file (bytes_of ''hello'')]
    in insert_lines_to_files Windows [''a.txt''] d fs ''LF'' =
         \<lparr>dir = d,
          files = [1 \<mapsto> plain_file
            (bytes_of (CHR 0x0D # CHR 0x0A # CHR 0x0D # CHR 0x0A # ''hello''))],
          processed_files = 1,
          console = [Processed ''a.txt'' ''CRLF'', Total 1, UsedNewline ''CRLF'']\<rparr>
     \<and> files (insert_lines_to_files Posix [''a.txt''] d fs ''windows'') 1 =
         Some (plain_file (bytes_of (CHR 0x0A # CHR 0x0A # ''hello'')))
     \<and> parse_newline (Some ''LF'') = Inl (SystemExit 2)
     \<and> parse_newline (Some ''crlf'') = Inr ''crlf'')"
proof -
  let ?d = "[''a.txt'' \<mapsto> File 1]"
  let ?fs = "[1::nat \<mapsto> plain_file (bytes_of ''hello'')]"
  have h1: "''LF'' \<noteq> ''lf'' \<and> ''LF'' \<noteq> ''crlf''" by simp
  have h2: "''windows'' \<noteq> ''lf'' \<and> ''windows'' \<noteq> ''crlf''
      \<and> distinct [''a.txt''] \<and> ''a.txt'' \<in> set [''a.txt''] \<and> ?d ''a.txt'' = Some (File 1)
      \<and> ?fs 1 = Some (plain_file (bytes_of ''hello''))
      \<and> utf8_decode (bytes_of ''hello'') = Some [0x68, 0x65, 0x6C, 0x6C, 0x6F]
      \<and> (endswith (lower ''a.txt'') ''.txt'' \<or> endswith (lower ''a.txt'') ''.md'')
      \<and> (\<forall>n\<in>set [''a.txt'']. n \<noteq> ''a.txt'' \<longrightarrow> \<not> (?d n = Some (File 1)
           \<and> (endswith (lower n) ''.txt'' \<or> endswith (lower n) ''.md'')))"
    by (simp add: bytes_of_def lower_def lower_char_def endswith_def)
  note a = unknown_newline_type_falls_back[where newline_type = "''LF''" and p = Windows
      and listing = "[''a.txt'']" and d = ?d and fs = ?fs, THEN conjunct1, THEN mp, OF h1]
  note b = unknown_newline_type_falls_back[where newline_type = "''windows''" and p = Posix
      and listing = "[''a.txt'']" and d = ?d and fs = ?fs and filename = "''a.txt''" and i = 1
      and bs = "bytes_of ''hello''" and t = "[0x68, 0x65, 0x6C, 0x6C, 0x6F]",
      THEN conjunct2, THEN conjunct1, THEN mp, OF h2]
  note c = unknown_newline_type_falls_back[where v = "''LF''", THEN conjunct2, THEN conjunct2]
  note e = unknown_newline_type_falls_back[where v = "''crlf''", THEN conjunct2, THEN conjunct2]
  have l: "for_loop (os_linesep Windows) [''a.txt'']
        \<lparr>dir = ?d, files = ?fs, processed_files = 0, console = []\<rparr>
      = \<lparr>dir = ?d,
         files = [1 \<mapsto> plain_file
           (bytes_of (CHR 0x0D # CHR 0x0A # CHR 0x0D # CHR 0x0A # ''hello''))],
         processed_files = 1, console = [Processed ''a.txt'' ''CRLF'']\<rparr>"
    by (simp add: run_defs)
  from a b c e show ?thesis
    unfolding Let_def l by (simp add: os_linesep_def nl_label_def encode_cp_def bytes_of_def)
qed

text \<open>
  C10. The extension test is a suffix test on the whole lowercased name: a regular file
  named exactly \<^verbatim>\<open>.txt\<close> or \<^verbatim>\<open>.md\<close> (in any letter case) is selected and goes through the
  \<^verbatim>\<open>try\<close> statement like any other candidate.
\<close>

theorem bare_extension_name_selected:
  assumes "dir s filename = Some (File i)" and "files s i = Some f"
    and "lower filename = ''.txt'' \<or> lower filename = ''.md''"
  shows "loop_body nl filename s = try_block nl filename s
       \<and> console (loop_body nl filename s) \<noteq> console s"
proof -
  have "isfile (dir s) (files s) filename" using assms(1,2) by (simp add: isfile_def)
  moreover have "endswith (lower filename) ''.txt'' \<or> endswith (lower filename) ''.md''"
    using assms(3) by (auto simp: endswith_def)
  ultimately have "loop_body nl filename s = try_block nl filename s"
    by (rule loop_body_selected)
  then show ?thesis by (simp add: try_block_console_neq)
qed

theorem bare_extension_name_selected_witness:
  "(let s = \<lparr>dir = [''.txt'' \<mapsto> File 1], files = [1 \<mapsto> plain_file (bytes_of ''hello'')],
             processed_files = 0, console = []\<rparr>
    in lower ''.txt'' = ''.txt''
     \<and> loop_body [0x0A] ''.txt'' s = try_block [0x0A] ''.txt'' s
     \<and> loop_body [0x0A] ''.txt'' s =
         \<lparr>dir = [''.txt'' \<mapsto> File 1],
          files = [1 \<mapsto> plain_file (bytes_of (CHR 0x0A # CHR 0x0A # ''hello''))],
          processed_files = 1, console = [Processed ''.txt'' ''LF'']\<rparr>)"
proof -
  let ?s = "\<lparr>dir = [''.txt'' \<mapsto> File 1], files = [1 \<mapsto> plain_file (bytes_of ''hello'')],
             processed_files = 0, console = []\<rparr>"
  have l: "lower ''.txt'' = ''.txt''" by (simp add: lower_def lower_char_def)
  have "dir ?s ''.txt'' = Some (File 1)" "files ?s 1 = Some (plain_file (bytes_of ''hello''))"
    by simp_all
  moreover from l have "lower ''.txt'' = ''.txt'' \<or> lower ''.txt'' = ''.md''" by simp
  ultimately have sel: "loop_body [0x0A] ''.txt'' ?s = try_block [0x0A] ''.txt'' ?s
      \<and> console (loop_body [0x0A] ''.txt'' ?s) \<noteq> console ?s"
    by (rule bare_extension_name_selected)
  have "try_block [0x0A] ''.txt'' ?s =
      \<lparr>dir = [''.txt'' \<mapsto> File 1],
       files = [1 \<mapsto> plain_file (bytes_of (CHR 0x0A # CHR 0x0A # ''hello''))],
       processed_files = 1, console = [Processed ''.txt'' ''LF'']\<rparr>"
    by (simp add: try_block_def read_text_def write_text_def bytes_of_def line1_def line2_def
        utf8_encode_def encodable_def encode_cp_def nl_label_def plain_file_def)
  with sel l show ?thesis by (simp add: Let_def)
qed

end
